theory Spec2Isabelle
  imports Main "HOL-Library.Stream"
begin

section \<open>Python values, text and bytes\<close>

text \<open>
  The program is \<^verbatim>\<open>0x02-redis_basic/exercise.py\<close>: two decorators
  (\<^verbatim>\<open>count_calls\<close>, \<^verbatim>\<open>call_history\<close>), the report \<^verbatim>\<open>replay\<close> and the
  class \<^verbatim>\<open>Cache\<close> over a Redis client. Exceptions are values of \<open>error\<close>; a
  computation that may raise returns \<open>error + 'a\<close> with \<open>Inl\<close> the exception.
\<close>

datatype error =
    TypeError | ValueError | AttributeError
  | UnicodeEncodeError | UnicodeDecodeError
  | DataError | ResponseError

text \<open>
  \<open>bytes\<close> is a list of 8-bit characters. A Python \<open>str\<close> is a list of code points.
  \<open>ascii\<close> reads an ASCII literal as a \<open>str\<close>.
\<close>

type_synonym bytes = "char list"
type_synonym pystr = "nat list"

definition ascii :: "string \<Rightarrow> pystr" where
  "ascii s = map of_char s"

text \<open>
  The values that reach the program: \<^verbatim>\<open>None\<close>, booleans, integers (unbounded),
  floats, text and bytes. Floating-point numbers are kept abstract: \<open>'f\<close> is their type,
  and all the program does with one is to render it (see \<open>float_repr\<close> below).
\<close>

datatype 'f pyval =
    PNone | PBool bool | PInt int | PFloat 'f | PStr pystr | PBytes bytes

text \<open>
  The parts of the interpreter that are tables or floating-point algorithms are taken as
  parameters: the rendering \<^verbatim>\<open>repr\<close> of a float, the comparison \<^verbatim>\<open>==\<close> of a
  float with a float and with an integer, and, for code points from 127 up, the Unicode
  database's properties printable, white space and decimal digit value.
\<close>

record 'f pyenv =
  float_repr :: "'f \<Rightarrow> pystr"
  float_eq :: "'f \<Rightarrow> 'f \<Rightarrow> bool"
  float_eq_int :: "'f \<Rightarrow> int \<Rightarrow> bool"
  uni_printable :: "nat \<Rightarrow> bool"
  uni_space :: "nat \<Rightarrow> bool"
  uni_decimal :: "nat \<Rightarrow> nat option"


subsection \<open>UTF-8\<close>

text \<open>
  \<^verbatim>\<open>str.encode('utf-8')\<close>, strict: a surrogate code point raises
  \<^verbatim>\<open>UnicodeEncodeError\<close>. (A number from \<open>0x110000\<close> up is no code point and is in
  no Python string; the encoder rejects it as well.)
\<close>

definition utf8_encode_cp :: "nat \<Rightarrow> error + bytes" where
  "utf8_encode_cp c =
     (if c < 0x80 then Inr [char_of c]
      else if c < 0x800 then Inr [char_of (0xC0 + c div 64), char_of (0x80 + c mod 64)]
      else if c < 0x10000 then
        (if 0xD800 \<le> c \<and> c \<le> 0xDFFF then Inl UnicodeEncodeError
         else Inr [char_of (0xE0 + c div 4096), char_of (0x80 + c div 64 mod 64),
                   char_of (0x80 + c mod 64)])
      else if c < 0x110000 then
        Inr [char_of (0xF0 + c div 262144), char_of (0x80 + c div 4096 mod 64),
             char_of (0x80 + c div 64 mod 64), char_of (0x80 + c mod 64)]
      else Inl UnicodeEncodeError)"

fun utf8_encode :: "pystr \<Rightarrow> error + bytes" where
  "utf8_encode [] = Inr []"
| "utf8_encode (c # cs) =
     (case utf8_encode_cp c of
        Inl e \<Rightarrow> Inl e
      | Inr b \<Rightarrow> (case utf8_encode cs of Inl e \<Rightarrow> Inl e | Inr bs \<Rightarrow> Inr (b @ bs)))"

text \<open>
  \<^verbatim>\<open>bytes.decode('utf-8')\<close>, strict: truncated and overlong sequences, surrogates
  and values above \<open>0x10FFFF\<close> raise \<^verbatim>\<open>UnicodeDecodeError\<close>.
\<close>

definition continuation :: "char \<Rightarrow> bool" where
  "continuation b = (0x80 \<le> (of_char b :: nat) \<and> (of_char b :: nat) < 0xC0)"

definition emit :: "nat \<Rightarrow> error + pystr \<Rightarrow> error + pystr" where
  "emit c r = (case r of Inl e \<Rightarrow> Inl e | Inr cs \<Rightarrow> Inr (c # cs))"

fun utf8_decode :: "bytes \<Rightarrow> error + pystr" where
  "utf8_decode [] = Inr []"
| "utf8_decode (b # bs) =
     (let x = of_char b in
      if x < 0x80 then emit x (utf8_decode bs)
      else if 0xC2 \<le> x \<and> x < 0xE0 then
        (case bs of
           b1 # r \<Rightarrow>
             if continuation b1
             then emit ((x - 0xC0) * 64 + (of_char b1 - 0x80)) (utf8_decode r)
             else Inl UnicodeDecodeError
         | _ \<Rightarrow> Inl UnicodeDecodeError)
      else if 0xE0 \<le> x \<and> x < 0xF0 then
        (case bs of
           b1 # b2 # r \<Rightarrow>
             (let c = (x - 0xE0) * 4096 + (of_char b1 - 0x80) * 64 + (of_char b2 - 0x80) in
              if continuation b1 \<and> continuation b2 \<and> 0x800 \<le> c
                 \<and> \<not> (0xD800 \<le> c \<and> c \<le> 0xDFFF)
              then emit c (utf8_decode r)
              else Inl UnicodeDecodeError)
         | _ \<Rightarrow> Inl UnicodeDecodeError)
      else if 0xF0 \<le> x \<and> x < 0xF5 then
        (case bs of
           b1 # b2 # b3 # r \<Rightarrow>
             (let c = (x - 0xF0) * 262144 + (of_char b1 - 0x80) * 4096
                      + (of_char b2 - 0x80) * 64 + (of_char b3 - 0x80) in
              if continuation b1 \<and> continuation b2 \<and> continuation b3
                 \<and> 0x10000 \<le> c \<and> c < 0x110000
              then emit c (utf8_decode r)
              else Inl UnicodeDecodeError)
         | _ \<Rightarrow> Inl UnicodeDecodeError)
      else Inl UnicodeDecodeError)"

subsection \<open>Integers as decimal text\<close>

text \<open>\<^verbatim>\<open>repr\<close> of an integer: its decimal digits, with a minus sign when negative.\<close>

fun show_nat :: "nat \<Rightarrow> string" where
  "show_nat n =
     (if n < 10 then [char_of (48 + n)]
      else show_nat (n div 10) @ [char_of (48 + n mod 10)])"

declare show_nat.simps [simp del]

definition show_int :: "int \<Rightarrow> string" where
  "show_int i = (if i < 0 then CHR ''-'' # show_nat (nat (- i)) else show_nat (nat i))"

definition nat_of_digits :: "nat list \<Rightarrow> nat" where
  "nat_of_digits ds = foldl (\<lambda>a d. 10 * a + d) 0 ds"

text \<open>
  \<^verbatim>\<open>int(s)\<close> for a \<open>str\<close>, base 10, as CPython reads it: code points from 127 up
  are first mapped to a space or to their decimal digit (anything else ends the text
  with a question mark, which no number contains); then white space is skipped, a sign
  is read, then digits with single underscores between them, then white space to the
  end. Everything else raises \<^verbatim>\<open>ValueError\<close>.
\<close>

definition int_space :: "nat \<Rightarrow> bool" where
  "int_space c = (c = 32 \<or> (9 \<le> c \<and> c \<le> 13))"

definition int_digit :: "nat \<Rightarrow> bool" where
  "int_digit c = (48 \<le> c \<and> c \<le> 57)"

fun to_ascii :: "'f pyenv \<Rightarrow> pystr \<Rightarrow> nat list" where
  "to_ascii E [] = []"
| "to_ascii E (c # cs) =
     (if c < 127 then c # to_ascii E cs
      else if uni_space E c then 32 # to_ascii E cs
      else (case uni_decimal E c of
              None \<Rightarrow> [63]
            | Some d \<Rightarrow> (48 + d) # to_ascii E cs))"

fun digits_ok :: "nat list \<Rightarrow> bool" where
  "digits_ok [] = False"
| "digits_ok [c] = int_digit c"
| "digits_ok (c # d # r) =
     (if int_digit c then (if d = 95 then digits_ok r else digits_ok (d # r)) else False)"

definition py_int :: "'f pyenv \<Rightarrow> pystr \<Rightarrow> error + int" where
  "py_int E s =
     (let a = dropWhile int_space (to_ascii E s);
          neg = (a \<noteq> [] \<and> hd a = 45);
          b = (if a \<noteq> [] \<and> (hd a = 43 \<or> hd a = 45) then tl a else a);
          ds = takeWhile (\<lambda>c. int_digit c \<or> c = 95) b;
          rest = dropWhile int_space (dropWhile (\<lambda>c. int_digit c \<or> c = 95) b)
      in if digits_ok ds \<and> rest = []
         then Inr ((if neg then - 1 else 1)
                     * int (nat_of_digits (map (\<lambda>c. c - 48) (filter int_digit ds))))
         else Inl ValueError)"

subsection \<open>\<^verbatim>\<open>repr\<close> and \<^verbatim>\<open>str\<close>\<close>

fun hex_fixed :: "nat \<Rightarrow> nat \<Rightarrow> pystr" where
  "hex_fixed 0 n = []"
| "hex_fixed (Suc k) n = hex_fixed k (n div 16) @ [ascii ''0123456789abcdef'' ! (n mod 16)]"

text \<open>
  \<^verbatim>\<open>repr\<close> of a \<open>str\<close>: single quotes, unless the text has a single quote and no
  double quote; the quote and the backslash are escaped, tab, newline and carriage
  return are written \<^verbatim>\<open>\t \n \r\<close>, the other control characters and the code
  points that are not printable as \<^verbatim>\<open>\xhh\<close>, \<^verbatim>\<open>\uhhhh\<close> or \<^verbatim>\<open>\Uhhhhhhhh\<close>.
\<close>

definition quote_of :: "nat list \<Rightarrow> nat" where
  "quote_of s = (if 39 \<in> set s \<and> 34 \<notin> set s then 34 else 39)"

definition repr_char :: "'f pyenv \<Rightarrow> nat \<Rightarrow> nat \<Rightarrow> pystr" where
  "repr_char E q c =
     (if c = q \<or> c = 92 then [92, c]
      else if c = 9 then [92, 116]
      else if c = 10 then [92, 110]
      else if c = 13 then [92, 114]
      else if c < 32 \<or> c = 127 then [92, 120] @ hex_fixed 2 c
      else if c < 127 then [c]
      else if uni_printable E c then [c]
      else if c \<le> 0xFF then [92, 120] @ hex_fixed 2 c
      else if c \<le> 0xFFFF then [92, 117] @ hex_fixed 4 c
      else [92, 85] @ hex_fixed 8 c)"

definition repr_str :: "'f pyenv \<Rightarrow> pystr \<Rightarrow> pystr" where
  "repr_str E s = (let q = quote_of s in [q] @ concat (map (repr_char E q) s) @ [q])"

definition repr_byte :: "nat \<Rightarrow> nat \<Rightarrow> pystr" where
  "repr_byte q c =
     (if c = q \<or> c = 92 then [92, c]
      else if c = 9 then [92, 116]
      else if c = 10 then [92, 110]
      else if c = 13 then [92, 114]
      else if c < 32 \<or> 127 \<le> c then [92, 120] @ hex_fixed 2 c
      else [c])"

definition repr_bytes :: "bytes \<Rightarrow> pystr" where
  "repr_bytes b =
     (let s = map of_char b; q = quote_of s in [98, q] @ concat (map (repr_byte q) s) @ [q])"

fun py_repr :: "'f pyenv \<Rightarrow> 'f pyval \<Rightarrow> pystr" where
  "py_repr E PNone = ascii ''None''"
| "py_repr E (PBool b) = (if b then ascii ''True'' else ascii ''False'')"
| "py_repr E (PInt i) = ascii (show_int i)"
| "py_repr E (PFloat x) = float_repr E x"
| "py_repr E (PStr s) = repr_str E s"
| "py_repr E (PBytes b) = repr_bytes b"

text \<open>\<^verbatim>\<open>str(v)\<close>: the text itself for a \<open>str\<close>, \<^verbatim>\<open>repr(v)\<close> otherwise.\<close>

fun py_str :: "'f pyenv \<Rightarrow> 'f pyval \<Rightarrow> pystr" where
  "py_str E (PStr s) = s"
| "py_str E v = py_repr E v"

text \<open>
  \<^verbatim>\<open>str(args)\<close> for the tuple of positional arguments: the items' \<^verbatim>\<open>repr\<close>
  separated by a comma and a space, in parentheses, a one-item tuple with a comma after
  the item.
\<close>

fun join_comma :: "pystr list \<Rightarrow> pystr" where
  "join_comma [] = []"
| "join_comma [x] = x"
| "join_comma (x # y # r) = x @ ascii '', '' @ join_comma (y # r)"

definition str_tuple :: "'f pyenv \<Rightarrow> 'f pyval list \<Rightarrow> pystr" where
  "str_tuple E args =
     ascii ''('' @ join_comma (map (py_repr E) args)
       @ (if length args = 1 then ascii '','' else []) @ ascii '')''"

section \<open>The backing store\<close>

text \<open>
  Modelled from the spec: the Redis server and its client library are not part of the
  repository; section 6 of the specification gives the contract of the six commands
  the program uses (\<^verbatim>\<open>SET\<close>, \<^verbatim>\<open>GET\<close>, \<^verbatim>\<open>INCR\<close>, \<^verbatim>\<open>RPUSH\<close>,
  \<^verbatim>\<open>LRANGE\<close>, \<^verbatim>\<open>FLUSHDB\<close>). A key holds a byte string or a list of byte
  strings; a command on a key of the other kind is refused (\<^verbatim>\<open>ResponseError\<close>).
  A counter is a byte string holding a decimal integer, and is unbounded as in the
  contract.
\<close>

datatype rvalue = RString bytes | RList "bytes list"

type_synonym redis_db = "bytes \<rightharpoonup> rvalue"

definition db_set :: "redis_db \<Rightarrow> bytes \<Rightarrow> bytes \<Rightarrow> redis_db" where
  "db_set db k v = db(k \<mapsto> RString v)"

definition db_get :: "redis_db \<Rightarrow> bytes \<Rightarrow> error + bytes option" where
  "db_get db k =
     (case db k of
        None \<Rightarrow> Inr None
      | Some (RString v) \<Rightarrow> Inr (Some v)
      | Some (RList xs) \<Rightarrow> Inl ResponseError)"

text \<open>The text of a counter: a decimal integer in its canonical form.\<close>

definition redis_int :: "bytes \<Rightarrow> int option" where
  "redis_int b =
     (let neg = (b \<noteq> [] \<and> hd b = CHR ''-'');
          ds = map of_char (if neg then tl b else b);
          v = (if neg then - 1 else 1) * int (nat_of_digits (map (\<lambda>c. c - 48) ds))
      in if ds \<noteq> [] \<and> list_all int_digit ds \<and> show_int v = b then Some v else None)"

definition db_incr :: "redis_db \<Rightarrow> bytes \<Rightarrow> error + (int \<times> redis_db)" where
  "db_incr db k =
     (case db k of
        None \<Rightarrow> Inr (1, db(k \<mapsto> RString (show_int 1)))
      | Some (RString v) \<Rightarrow>
          (case redis_int v of
             None \<Rightarrow> Inl ResponseError
           | Some n \<Rightarrow> Inr (n + 1, db(k \<mapsto> RString (show_int (n + 1)))))
      | Some (RList xs) \<Rightarrow> Inl ResponseError)"

definition db_rpush :: "redis_db \<Rightarrow> bytes \<Rightarrow> bytes \<Rightarrow> error + (nat \<times> redis_db)" where
  "db_rpush db k v =
     (case db k of
        None \<Rightarrow> Inr (1, db(k \<mapsto> RList [v]))
      | Some (RList xs) \<Rightarrow> Inr (length xs + 1, db(k \<mapsto> RList (xs @ [v])))
      | Some (RString s) \<Rightarrow> Inl ResponseError)"

text \<open>Inclusive bounds; a negative bound counts from the end of the list.\<close>

definition slice :: "'a list \<Rightarrow> int \<Rightarrow> int \<Rightarrow> 'a list" where
  "slice xs start stop =
     (let n = int (length xs);
          s = (if start < 0 then max 0 (n + start) else start);
          e = (if stop < 0 then n + stop else min stop (n - 1))
      in if e < s then [] else take (nat (e - s + 1)) (drop (nat s) xs))"

definition db_lrange :: "redis_db \<Rightarrow> bytes \<Rightarrow> int \<Rightarrow> int \<Rightarrow> error + bytes list" where
  "db_lrange db k start stop =
     (case db k of
        None \<Rightarrow> Inr []
      | Some (RList xs) \<Rightarrow> Inr (slice xs start stop)
      | Some (RString s) \<Rightarrow> Inl ResponseError)"

definition db_flush :: "redis_db \<Rightarrow> redis_db" where
  "db_flush db = Map.empty"

subsection \<open>The client\<close>

text \<open>
  The client turns every key and value into bytes before it sends the command: bytes
  as they are, an integer or a float as the UTF-8 of its \<^verbatim>\<open>repr\<close>, text as its
  UTF-8; a boolean, \<^verbatim>\<open>None\<close> and every other object raise \<^verbatim>\<open>DataError\<close>.
  Replies are bytes (the client does not decode responses), \<^verbatim>\<open>None\<close> for an absent
  key. Keys are \<open>str\<close> throughout the program.
\<close>

definition encode :: "'f pyenv \<Rightarrow> 'f pyval \<Rightarrow> error + bytes" where
  "encode E v =
     (case v of
        PBytes b \<Rightarrow> Inr b
      | PBool b \<Rightarrow> Inl DataError
      | PInt i \<Rightarrow> utf8_encode (py_repr E (PInt i))
      | PFloat x \<Rightarrow> utf8_encode (py_repr E (PFloat x))
      | PStr s \<Rightarrow> utf8_encode s
      | PNone \<Rightarrow> Inl DataError)"

definition r_set :: "'f pyenv \<Rightarrow> redis_db \<Rightarrow> pystr \<Rightarrow> 'f pyval \<Rightarrow> error + redis_db" where
  "r_set E db key data =
     (case utf8_encode key of
        Inl e \<Rightarrow> Inl e
      | Inr k \<Rightarrow> (case encode E data of Inl e \<Rightarrow> Inl e | Inr v \<Rightarrow> Inr (db_set db k v)))"

definition r_get :: "redis_db \<Rightarrow> pystr \<Rightarrow> error + 'f pyval" where
  "r_get db key =
     (case utf8_encode key of
        Inl e \<Rightarrow> Inl e
      | Inr k \<Rightarrow>
          (case db_get db k of
             Inl e \<Rightarrow> Inl e
           | Inr None \<Rightarrow> Inr PNone
           | Inr (Some b) \<Rightarrow> Inr (PBytes b)))"

definition r_incr :: "redis_db \<Rightarrow> pystr \<Rightarrow> error + (int \<times> redis_db)" where
  "r_incr db key = (case utf8_encode key of Inl e \<Rightarrow> Inl e | Inr k \<Rightarrow> db_incr db k)"

definition r_rpush ::
  "'f pyenv \<Rightarrow> redis_db \<Rightarrow> pystr \<Rightarrow> 'f pyval \<Rightarrow> error + (nat \<times> redis_db)" where
  "r_rpush E db key v =
     (case utf8_encode key of
        Inl e \<Rightarrow> Inl e
      | Inr k \<Rightarrow> (case encode E v of Inl e \<Rightarrow> Inl e | Inr b \<Rightarrow> db_rpush db k b))"

definition r_lrange :: "redis_db \<Rightarrow> pystr \<Rightarrow> int \<Rightarrow> int \<Rightarrow> error + bytes list" where
  "r_lrange db key start stop =
     (case utf8_encode key of Inl e \<Rightarrow> Inl e | Inr k \<Rightarrow> db_lrange db k start stop)"

definition r_flushdb :: "redis_db \<Rightarrow> redis_db" where
  "r_flushdb db = db_flush db"

section \<open>The program\<close>

text \<open>
  The state the program runs in: the database behind \<^verbatim>\<open>self._redis\<close> (and behind
  the client \<^verbatim>\<open>replay\<close> opens, which connects to the same server), and the values
  \<^verbatim>\<open>str(uuid.uuid4())\<close> returns from now on, in order.
\<close>

record world =
  redis :: redis_db
  entropy :: "pystr stream"

definition uuid4_str :: "world \<Rightarrow> pystr \<times> world" where
  "uuid4_str w = (shd (entropy w), w\<lparr>entropy := stl (entropy w)\<rparr>)"

text \<open>
  The text of a version 4 UUID: 36 characters, hyphens at 8, 13, 18 and 23, lower-case
  hexadecimal digits elsewhere, the version digit 4 and a variant digit of 8, 9, a or b.
\<close>

definition hex_lower :: "nat \<Rightarrow> bool" where
  "hex_lower c = ((48 \<le> c \<and> c \<le> 57) \<or> (97 \<le> c \<and> c \<le> 102))"

definition uuid_text :: "pystr \<Rightarrow> bool" where
  "uuid_text k =
     (length k = 36
      \<and> list_all (\<lambda>(i, c). if i \<in> {8, 13, 18, 23} then c = 45 else hex_lower c)
           (enumerate 0 k)
      \<and> k ! 14 = 52 \<and> k ! 19 \<in> {56, 57, 97, 98})"

text \<open>
  A method takes \<^verbatim>\<open>self\<close>, the positional arguments and the keyword arguments
  (a dictionary: names are distinct); it returns a value or raises, and leaves a state
  in both cases. \<^verbatim>\<open>functools.wraps\<close> gives a wrapper the \<^verbatim>\<open>__qualname__\<close> of
  the method it wraps. A wrapper has the parameters \<^verbatim>\<open>(self, *args, **kwargs)\<close>, so
  every call reaches its body but one that passes a keyword named \<^verbatim>\<open>self\<close>; the
  model starts in the body.
\<close>

type_synonym 'f kwargs = "(pystr \<times> 'f pyval) list"

record 'f pymethod =
  qualname :: pystr
  body :: "world \<Rightarrow> 'f pyval list \<Rightarrow> 'f kwargs \<Rightarrow> (error + 'f pyval) \<times> world"

definition count_calls :: "'f pymethod \<Rightarrow> 'f pymethod" where
  "count_calls method =
     (let key = qualname method in
      \<lparr>qualname = qualname method,
       body = (\<lambda>self args kwargs.
         case r_incr (redis self) key of
           Inl e \<Rightarrow> (Inl e, self)
         | Inr (n, db) \<Rightarrow> body method (self\<lparr>redis := db\<rparr>) args kwargs)\<rparr>)"

definition call_history :: "'f pyenv \<Rightarrow> 'f pymethod \<Rightarrow> 'f pymethod" where
  "call_history E method =
     \<lparr>qualname = qualname method,
      body = (\<lambda>self args kwargs.
        let input_key = qualname method @ ascii '':inputs'';
            output_key = qualname method @ ascii '':outputs''
        in case body method self args kwargs of
             (Inl e, self1) \<Rightarrow> (Inl e, self1)
           | (Inr output, self1) \<Rightarrow>
               (case r_rpush E (redis self1) input_key (PStr (str_tuple E args)) of
                  Inl e \<Rightarrow> (Inl e, self1)
                | Inr (n, db1) \<Rightarrow>
                    (case r_rpush E db1 output_key (PStr (py_str E output)) of
                       Inl e \<Rightarrow> (Inl e, self1\<lparr>redis := db1\<rparr>)
                     | Inr (m, db2) \<Rightarrow> (Inr output, self1\<lparr>redis := db2\<rparr>))))\<rparr>"

text \<open>
  \<^verbatim>\<open>n_calls.decode('utf-8')\<close> and its siblings: only bytes have the method; on
  \<^verbatim>\<open>None\<close> (and on any other value) the call raises \<^verbatim>\<open>AttributeError\<close>.
\<close>

definition py_decode :: "'f pyval \<Rightarrow> error + pystr" where
  "py_decode v = (case v of PBytes b \<Rightarrow> utf8_decode b | _ \<Rightarrow> Inl AttributeError)"

definition decode_or_empty :: "bytes \<Rightarrow> pystr" where
  "decode_or_empty b = (case utf8_decode b of Inl e \<Rightarrow> [] | Inr s \<Rightarrow> s)"

text \<open>
  \<^verbatim>\<open>replay\<close> prints; the model returns the lines printed, and the exception that
  ended it, if one did.
\<close>

definition replay :: "'f pyenv \<Rightarrow> world \<Rightarrow> 'f pymethod \<Rightarrow> pystr list \<times> error option" where
  "replay E w fn =
     (let f_name = qualname fn in
      case (r_get (redis w) f_name :: error + 'f pyval) of
        Inl e \<Rightarrow> ([], Some e)
      | Inr got \<Rightarrow>
          (let n_calls = (case py_decode got of Inl e \<Rightarrow> PInt 0 | Inr s \<Rightarrow> PStr s);
               header = f_name @ ascii '' was called '' @ py_str E n_calls @ ascii '' times:''
           in case r_lrange (redis w) (f_name @ ascii '':inputs'') 0 (- 1) of
                Inl e \<Rightarrow> ([header], Some e)
              | Inr ins \<Rightarrow>
                  (case r_lrange (redis w) (f_name @ ascii '':outputs'') 0 (- 1) of
                     Inl e \<Rightarrow> ([header], Some e)
                   | Inr outs \<Rightarrow>
                       (header #
                        map (\<lambda>(i, out). f_name @ ascii ''(*'' @ decode_or_empty i
                                           @ ascii '') -> '' @ decode_or_empty out)
                            (zip ins outs),
                        None))))"

subsection \<open>The class \<^verbatim>\<open>Cache\<close>\<close>

definition Cache_init :: "world \<Rightarrow> world" where
  "Cache_init w = w\<lparr>redis := r_flushdb (redis w)\<rparr>"

text \<open>
  \<^verbatim>\<open>store(self, data)\<close> takes one argument, by position or by the name
  \<^verbatim>\<open>data\<close>; any other call raises \<^verbatim>\<open>TypeError\<close> before the body runs.
\<close>

definition bind_data :: "'f pyval list \<Rightarrow> 'f kwargs \<Rightarrow> error + 'f pyval" where
  "bind_data args kwargs =
     (case (args, kwargs) of
        ([data], []) \<Rightarrow> Inr data
      | ([], [(name, data)]) \<Rightarrow> if name = ascii ''data'' then Inr data else Inl TypeError
      | _ \<Rightarrow> Inl TypeError)"

definition store :: "'f pyenv \<Rightarrow> 'f pymethod" where
  "store E =
     \<lparr>qualname = ascii ''Cache.store'',
      body = (\<lambda>self args kwargs.
        case bind_data args kwargs of
          Inl e \<Rightarrow> (Inl e, self)
        | Inr data \<Rightarrow>
            (let (key, self1) = uuid4_str self
             in case r_set E (redis self1) key data of
                  Inl e \<Rightarrow> (Inl e, self1)
                | Inr db \<Rightarrow> (Inr (PStr key), self1\<lparr>redis := db\<rparr>)))\<rparr>"

text \<open>The attribute \<^verbatim>\<open>Cache.store\<close>: the method under its two decorators.\<close>

definition Cache_store :: "'f pyenv \<Rightarrow> 'f pymethod" where
  "Cache_store E = count_calls (call_history E (store E))"

text \<open>
  \<^verbatim>\<open>fn\<close> is \<open>None\<close> when the caller gives no function (\<^verbatim>\<open>if fn:\<close> is false
  for \<^verbatim>\<open>None\<close> and true for a function).
\<close>

definition get ::
  "world \<Rightarrow> pystr \<Rightarrow> ('f pyval \<Rightarrow> error + 'f pyval) option \<Rightarrow> error + 'f pyval" where
  "get self key fn =
     (case r_get (redis self) key of
        Inl e \<Rightarrow> Inl e
      | Inr data \<Rightarrow> (case fn of Some f \<Rightarrow> f data | None \<Rightarrow> Inr data))"

text \<open>
  A reply of the store holds no float; where no environment fixes the type of floats,
  the reply is read at the type \<open>unit pyval\<close>.
\<close>

definition get_str :: "world \<Rightarrow> pystr \<Rightarrow> error + pystr" where
  "get_str self key =
     (case (r_get (redis self) key :: error + unit pyval) of
        Inl e \<Rightarrow> Inl e
      | Inr variable \<Rightarrow> py_decode variable)"

definition get_int :: "'f pyenv \<Rightarrow> world \<Rightarrow> pystr \<Rightarrow> error + int" where
  "get_int E self key =
     (case (r_get (redis self) key :: error + 'f pyval) of
        Inl e \<Rightarrow> Inl e
      | Inr variable \<Rightarrow>
          (case (case py_decode variable of Inl e \<Rightarrow> Inl e | Inr s \<Rightarrow> py_int E s) of
             Inl e \<Rightarrow> Inr 0
           | Inr n \<Rightarrow> Inr n))"

subsection \<open>Sequences of calls\<close>

text \<open>
  Calling a method once for each item of a list of arguments, each call in the state
  the one before left: the results in order, and the last state.
\<close>

fun call_seq ::
  "'f pymethod \<Rightarrow> world \<Rightarrow> ('f pyval list \<times> 'f kwargs) list
     \<Rightarrow> (error + 'f pyval) list \<times> world" where
  "call_seq m w [] = ([], w)"
| "call_seq m w (c # cs) =
     (case body m w (fst c) (snd c) of
        (r, w1) \<Rightarrow> (case call_seq m w1 cs of (rs, w2) \<Rightarrow> (r # rs, w2)))"

text \<open>The calls that returned, each with the value it returned.\<close>

fun returned ::
  "('f pyval list \<times> 'f kwargs) list \<Rightarrow> (error + 'f pyval) list
     \<Rightarrow> ('f pyval list \<times> 'f pyval) list" where
  "returned (c # cs) (Inr v # rs) = (fst c, v) # returned cs rs"
| "returned (c # cs) (Inl e # rs) = returned cs rs"
| "returned cs rs = []"

text \<open>
  An environment to run examples in: ASCII only, and one float, \<^verbatim>\<open>float('nan')\<close>,
  which renders as \<^verbatim>\<open>nan\<close> and equals no number, itself included.
\<close>

definition plain_env :: "unit pyenv" where
  "plain_env =
     \<lparr>float_repr = (\<lambda>x. ascii ''nan''), float_eq = (\<lambda>x y. False),
      float_eq_int = (\<lambda>x i. False), uni_printable = (\<lambda>c. False),
      uni_space = (\<lambda>c. False), uni_decimal = (\<lambda>c. None)\<rparr>"

text \<open>A sample UUID text, and a state whose generator returns it at every call.\<close>

definition sample_uuid :: pystr where
  "sample_uuid = ascii ''123e4567-e89b-42d3-a456-426614174000''"

definition sample_world :: "redis_db \<Rightarrow> world" where
  "sample_world db = \<lparr>redis = db, entropy = sconst sample_uuid\<rparr>"

section \<open>Properties of the text functions\<close>


subsection \<open>UTF-8\<close>

lemma utf8_encode_cp_ascii: "c < 128 \<Longrightarrow> utf8_encode_cp c = Inr [char_of c]"
  by (simp add: utf8_encode_cp_def)

lemma utf8_encode_ascii:
  "list_all (\<lambda>c. of_char c < (128::nat)) s \<Longrightarrow> utf8_encode (ascii s) = Inr s"
  by (induction s) (auto simp: ascii_def utf8_encode_cp_ascii)

lemma utf8_encode_append:
  "utf8_encode (a @ b) =
     (case utf8_encode a of
        Inl e \<Rightarrow> Inl e
      | Inr x \<Rightarrow> (case utf8_encode b of Inl e \<Rightarrow> Inl e | Inr y \<Rightarrow> Inr (x @ y)))"
  by (induction a) (auto split: sum.splits)









subsection \<open>Decimal text\<close>

lemma show_nat_digits: "list_all (\<lambda>c. int_digit (of_char c)) (show_nat n)"
proof (induction n rule: show_nat.induct)
  case (1 n)
  show ?case
  proof (cases "n < 10")
    case True
    then show ?thesis by (subst show_nat.simps) (simp add: int_digit_def)
  next
    case False
    have m: "(48 + n mod 10) mod 256 = 48 + n mod 10" by simp
    from False 1 show ?thesis
      by (subst show_nat.simps) (simp add: int_digit_def m)
  qed
qed

lemma show_nat_nonempty: "show_nat n \<noteq> []"
  by (subst show_nat.simps) simp

lemma nat_of_digits_snoc: "nat_of_digits (ds @ [d]) = 10 * nat_of_digits ds + d"
  by (simp add: nat_of_digits_def)

lemma show_nat_value: "nat_of_digits (map (\<lambda>c. of_char c - 48) (show_nat n)) = n"
proof (induction n rule: show_nat.induct)
  case (1 n)
  show ?case
  proof (cases "n < 10")
    case True
    then show ?thesis by (subst show_nat.simps) (simp add: nat_of_digits_def)
  next
    case False
    have m: "(48 + n mod 10) mod 256 = 48 + n mod 10" by simp
    from False 1 show ?thesis
      by (subst show_nat.simps) (simp add: nat_of_digits_snoc m)
  qed
qed

lemma show_nat_hd: "hd (show_nat n) \<noteq> CHR ''-''"
proof -
  have "int_digit (of_char (hd (show_nat n)))"
    using show_nat_digits [of n] show_nat_nonempty [of n]
    by (cases "show_nat n") auto
  then show ?thesis by (auto simp: int_digit_def)
qed

lemma show_nat_ascii: "list_all (\<lambda>c. of_char c < (128::nat)) (show_nat n)"
  using show_nat_digits [of n] by (induction "show_nat n" arbitrary: n) (auto simp: int_digit_def list_all_iff)


lemma redis_int_show_int: "redis_int (show_int i) = Some i"
proof (cases "i < 0")
  case True
  let ?n = "nat (- i)"
  have ds: "list_all int_digit (map of_char (show_nat ?n))"
    using show_nat_digits [of ?n] by (simp add: list_all_iff)
  have v: "- int (nat_of_digits (map (\<lambda>c. c - 48) (map of_char (show_nat ?n)))) = i"
    using show_nat_value [of ?n] True by (simp add: comp_def)
  show ?thesis
    using True ds v show_nat_nonempty [of ?n]
    by (simp add: redis_int_def show_int_def Let_def)
next
  case False
  let ?n = "nat i"
  have ds: "list_all int_digit (map of_char (show_nat ?n))"
    using show_nat_digits [of ?n] by (simp add: list_all_iff)
  have v: "int (nat_of_digits (map (\<lambda>c. c - 48) (map of_char (show_nat ?n)))) = i"
    using show_nat_value [of ?n] False by (simp add: comp_def)
  show ?thesis
    using False ds v show_nat_nonempty [of ?n] show_nat_hd [of ?n]
    by (simp add: redis_int_def show_int_def Let_def)
qed

lemma to_ascii_id: "list_all (\<lambda>c. c < 127) s \<Longrightarrow> to_ascii E s = s"
  by (induction s) auto

lemma digits_ok_all: "ds \<noteq> [] \<Longrightarrow> list_all int_digit ds \<Longrightarrow> digits_ok ds"
  by (induction ds rule: digits_ok.induct) (auto simp: int_digit_def)

lemma dropWhile_hd: "xs \<noteq> [] \<Longrightarrow> \<not> P (hd xs) \<Longrightarrow> dropWhile P xs = xs"
  by (cases xs) auto

lemma takeWhile_all: "list_all P xs \<Longrightarrow> takeWhile (\<lambda>c. P c \<or> Q c) xs = xs"
  by (induction xs) auto

lemma dropWhile_all: "list_all P xs \<Longrightarrow> dropWhile (\<lambda>c. P c \<or> Q c) xs = []"
  by (induction xs) auto

lemma filter_all: "list_all P xs \<Longrightarrow> filter P xs = xs"
  by (induction xs) auto

lemma py_int_digits:
  assumes "ds \<noteq> []" "list_all int_digit ds"
  shows "py_int E ds = Inr (int (nat_of_digits (map (\<lambda>c. c - 48) ds)))"
    and "py_int E (45 # ds) = Inr (- int (nat_of_digits (map (\<lambda>c. c - 48) ds)))"
proof -
  have small: "list_all (\<lambda>c. c < 127) ds"
    using assms(2) by (auto simp: list_all_iff int_digit_def)
  have h: "int_digit (hd ds)" using assms by (cases ds) auto
  then have ns: "\<not> int_space (hd ds)" "hd ds \<noteq> 43" "hd ds \<noteq> 45"
    by (auto simp: int_digit_def int_space_def)
  have dw: "dropWhile int_space ds = ds" using assms(1) ns(1) by (rule dropWhile_hd)
  show "py_int E ds = Inr (int (nat_of_digits (map (\<lambda>c. c - 48) ds)))"
    using assms ns
    by (simp add: py_int_def Let_def to_ascii_id [OF small] dw takeWhile_all dropWhile_all
          filter_all digits_ok_all)
  show "py_int E (45 # ds) = Inr (- int (nat_of_digits (map (\<lambda>c. c - 48) ds)))"
    using assms
    by (simp add: py_int_def Let_def to_ascii_id [OF small] int_space_def takeWhile_all
          dropWhile_all filter_all digits_ok_all)
qed

lemma py_int_show_int: "py_int E (ascii (show_int i)) = Inr i"
proof -
  let ?n = "nat \<bar>i\<bar>"
  let ?ds = "map of_char (show_nat ?n) :: nat list"
  have ne: "?ds \<noteq> []" using show_nat_nonempty [of ?n] by simp
  have ds: "list_all int_digit ?ds"
    using show_nat_digits [of ?n] by (simp add: list_all_iff)
  have v: "nat_of_digits (map (\<lambda>c. c - 48) ?ds) = ?n"
    using show_nat_value [of ?n] by (simp add: comp_def)
  show ?thesis
  proof (cases "i < 0")
    case True
    then have "ascii (show_int i) = 45 # ?ds" by (simp add: ascii_def show_int_def)
    then show ?thesis using py_int_digits(2) [OF ne ds, of E] v True by simp
  next
    case False
    then have "ascii (show_int i) = ?ds" by (simp add: ascii_def show_int_def)
    then show ?thesis using py_int_digits(1) [OF ne ds, of E] v False by simp
  qed
qed

lemma show_int_ascii: "list_all (\<lambda>c. of_char c < (128::nat)) (show_int i)"
  using show_nat_ascii by (simp add: show_int_def)

lemma utf8_encode_show_int: "utf8_encode (ascii (show_int i)) = Inr (show_int i)"
  by (rule utf8_encode_ascii [OF show_int_ascii])


lemma emit_Inl: "emit c r = Inl e \<longleftrightarrow> r = Inl e"
  by (simp add: emit_def split: sum.splits)

lemma utf8_decode_error: "utf8_decode b = Inl e \<Longrightarrow> e = UnicodeDecodeError"
proof (induction b arbitrary: e rule: length_induct)
  case (1 b)
  have IH: "\<And>ys e. utf8_decode ys = Inl e \<Longrightarrow> length ys < length b \<Longrightarrow> e = UnicodeDecodeError"
    using "1.IH" by blast
  show ?case
  proof (cases b)
    case Nil
    with "1.prems" show ?thesis by simp
  next
    case (Cons x xs)
    have IH': "\<And>ys e. utf8_decode ys = Inl e \<Longrightarrow> length ys \<le> length xs \<Longrightarrow> e = UnicodeDecodeError"
      using IH Cons by simp
    from "1.prems" show ?thesis
      unfolding Cons utf8_decode.simps Let_def
      by (auto simp: emit_Inl split: if_splits list.splits dest: IH')
  qed
qed


section \<open>Properties of the store and of one call\<close>


subsection \<open>Keys\<close>

lemma enc_ckey: "utf8_encode (ascii ''Cache.store'') = Inr ''Cache.store''"
  by (simp add: utf8_encode_ascii)

lemma enc_ikey: "utf8_encode (ascii ''Cache.store'' @ ascii '':inputs'') = Inr ''Cache.store:inputs''"
  by (simp add: utf8_encode_append utf8_encode_ascii)

lemma enc_okey: "utf8_encode (ascii ''Cache.store'' @ ascii '':outputs'') = Inr ''Cache.store:outputs''"
  by (simp add: utf8_encode_append utf8_encode_ascii)

lemma utf8_encode_small: "list_all (\<lambda>c. c < 128) s \<Longrightarrow> utf8_encode s = Inr (map char_of s)"
  by (induction s) (auto simp: utf8_encode_cp_ascii)

lemma list_all_enumerate:
  "list_all (\<lambda>(i, c). P i c) (enumerate n xs) \<Longrightarrow> (\<And>i c. P i c \<Longrightarrow> Q c) \<Longrightarrow> list_all Q xs"
  by (induction xs arbitrary: n) auto

lemma uuid_text_small: "uuid_text k \<Longrightarrow> list_all (\<lambda>c. c < 128) k"
  unfolding uuid_text_def
  by (elim conjE, erule list_all_enumerate) (auto simp: hex_lower_def split: if_splits)

lemma uuid_text_encode: "uuid_text k \<Longrightarrow> utf8_encode k = Inr (map char_of k)"
  by (simp add: utf8_encode_small uuid_text_small)

lemma uuid_text_length: "uuid_text k \<Longrightarrow> length k = 36"
  by (simp add: uuid_text_def)

lemma uuid_key_fresh:
  assumes "uuid_text k"
  shows "map char_of k \<noteq> ''Cache.store''" "map char_of k \<noteq> ''Cache.store:inputs''"
    "map char_of k \<noteq> ''Cache.store:outputs''"
    "''Cache.store'' \<noteq> map char_of k" "''Cache.store:inputs'' \<noteq> map char_of k"
    "''Cache.store:outputs'' \<noteq> map char_of k"
proof -
  have l: "length (map char_of k :: string) = 36" using assms by (simp add: uuid_text_length)
  show "map char_of k \<noteq> ''Cache.store''" using l by auto
  show "map char_of k \<noteq> ''Cache.store:inputs''" using l by auto
  show "map char_of k \<noteq> ''Cache.store:outputs''" using l by auto
  show "''Cache.store'' \<noteq> map char_of k" using l by auto
  show "''Cache.store:inputs'' \<noteq> map char_of k" using l by auto
  show "''Cache.store:outputs'' \<noteq> map char_of k" using l by auto
qed

subsection \<open>The store's commands\<close>

lemma slice_all: "slice xs 0 (- 1) = xs"
  by (simp add: slice_def Let_def)

lemma db_lrange_all:
  "db_lrange db k 0 (- 1) = Inr xs \<longleftrightarrow>
     (db k = None \<and> xs = []) \<or> db k = Some (RList xs)"
  by (auto simp: db_lrange_def slice_all split: option.splits rvalue.splits)

lemma db_rpush_list:
  assumes "db_lrange db k 0 (- 1) = Inr xs"
  shows "db_rpush db k v = Inr (length xs + 1, db(k \<mapsto> RList (xs @ [v])))"
  using assms by (auto simp: db_lrange_all db_rpush_def)

lemma db_incr_counter:
  assumes "db_get db k = Inr (if n = 0 then None else Some (show_int (int n)))"
  shows "db_incr db k = Inr (int n + 1, db(k \<mapsto> RString (show_int (int n + 1))))"
  using assms
  by (auto simp: db_get_def db_incr_def redis_int_show_int
        split: option.splits rvalue.splits if_splits)

subsection \<open>One call\<close>

lemma store_body:
  "body (store E) w args kwargs =
     (case bind_data args kwargs of
        Inl e \<Rightarrow> (Inl e, w)
      | Inr data \<Rightarrow>
          (case r_set E (redis w) (shd (entropy w)) data of
             Inl e \<Rightarrow> (Inl e, w\<lparr>entropy := stl (entropy w)\<rparr>)
           | Inr db \<Rightarrow>
               (Inr (PStr (shd (entropy w))), w\<lparr>entropy := stl (entropy w), redis := db\<rparr>)))"
  by (simp add: store_def uuid4_str_def split: sum.splits)

lemma store_raises:
  "body (store E) w args kwargs = (Inl e, w') \<Longrightarrow> redis w' = redis w"
  by (auto simp: store_body split: sum.splits)

lemma store_returns:
  assumes "body (store E) w args kwargs = (Inr v, w')"
  shows "\<exists>data kb payload.
           bind_data args kwargs = Inr data \<and> v = PStr (shd (entropy w))
           \<and> utf8_encode (shd (entropy w)) = Inr kb \<and> encode E data = Inr payload
           \<and> redis w' = (redis w)(kb \<mapsto> RString payload)
           \<and> entropy w' = stl (entropy w)"
  using assms by (auto simp: store_body r_set_def db_set_def split: sum.splits)

lemma call_history_raises:
  "body m w args kwargs = (Inl e, w1) \<Longrightarrow> body (call_history E m) w args kwargs = (Inl e, w1)"
  by (simp add: call_history_def)

lemma history_store_step:
  assumes u: "uuid_text (shd (entropy w))"
    and i: "db_lrange (redis w) ''Cache.store:inputs'' 0 (- 1) = Inr ins"
    and o: "db_lrange (redis w) ''Cache.store:outputs'' 0 (- 1) = Inr outs"
    and b: "body (call_history E (store E)) w args kwargs = (r, w')"
  shows "redis w' ''Cache.store'' = redis w ''Cache.store''
    \<and> (entropy w' = entropy w \<or> entropy w' = stl (entropy w))
    \<and> (case r of
          Inl e \<Rightarrow>
            db_lrange (redis w') ''Cache.store:inputs'' 0 (- 1) = Inr ins
            \<and> db_lrange (redis w') ''Cache.store:outputs'' 0 (- 1) = Inr outs
        | Inr v \<Rightarrow>
            (\<exists>bi bo. utf8_encode (str_tuple E args) = Inr bi
               \<and> utf8_encode (py_str E v) = Inr bo
               \<and> db_lrange (redis w') ''Cache.store:inputs'' 0 (- 1) = Inr (ins @ [bi])
               \<and> db_lrange (redis w') ''Cache.store:outputs'' 0 (- 1) = Inr (outs @ [bo])))"
proof (cases "body (store E) w args kwargs")
  case (Pair r1 w1)
  show ?thesis
  proof (cases r1)
    case (Inl e)
    with Pair have "body (call_history E (store E)) w args kwargs = (Inl e, w1)"
      by (simp add: call_history_raises)
    with b have rw: "r = Inl e" "w' = w1" by simp_all
    have "redis w1 = redis w" using Pair Inl by (auto dest: store_raises)
    moreover have "entropy w1 = entropy w \<or> entropy w1 = stl (entropy w)"
      using Pair Inl by (auto simp: store_body split: sum.splits)
    ultimately show ?thesis using rw i o by simp
  next
    case (Inr v)
    let ?k = "shd (entropy w)"
    let ?kb = "map char_of ?k :: string"
    from Pair Inr obtain data payload where
      v: "v = PStr ?k" and db1: "redis w1 = (redis w)(?kb \<mapsto> RString payload)"
      and e1: "entropy w1 = stl (entropy w)"
      using store_returns [of E w args kwargs v w1] uuid_text_encode [OF u] by auto
    note fresh = uuid_key_fresh [OF u]
    have i1: "db_lrange (redis w1) ''Cache.store:inputs'' 0 (- 1) = Inr ins"
      using i fresh by (simp add: db1 db_lrange_def)
    have o1: "db_lrange (redis w1) ''Cache.store:outputs'' 0 (- 1) = Inr outs"
      using o fresh by (simp add: db1 db_lrange_def)
    have c1: "redis w1 ''Cache.store'' = redis w ''Cache.store''"
      using fresh by (simp add: db1)
    have unf: "body (call_history E (store E)) w args kwargs =
      (case r_rpush E (redis w1) (ascii ''Cache.store'' @ ascii '':inputs'') (PStr (str_tuple E args)) of
         Inl e \<Rightarrow> (Inl e, w1)
       | Inr (n, db1) \<Rightarrow>
           (case r_rpush E db1 (ascii ''Cache.store'' @ ascii '':outputs'') (PStr (py_str E v)) of
              Inl e \<Rightarrow> (Inl e, w1\<lparr>redis := db1\<rparr>)
            | Inr (m, db2) \<Rightarrow> (Inr v, w1\<lparr>redis := db2\<rparr>)))"
      using Pair Inr by (simp add: call_history_def store_def)
    show ?thesis
    proof (cases "utf8_encode (str_tuple E args)")
      case (Inl e)
      then have "body (call_history E (store E)) w args kwargs = (Inl e, w1)"
        by (simp add: unf r_rpush_def enc_ikey encode_def)
      with b have "r = Inl e" "w' = w1" by simp_all
      then show ?thesis using i1 o1 c1 e1 by simp
    next
      case bi: (Inr bi)
      let ?db2 = "(redis w1)(''Cache.store:inputs'' \<mapsto> RList (ins @ [bi]))"
      have p1: "r_rpush E (redis w1) (ascii ''Cache.store'' @ ascii '':inputs'') (PStr (str_tuple E args))
        = Inr (length ins + 1, ?db2)"
        by (simp add: r_rpush_def enc_ikey encode_def bi db_rpush_list [OF i1])
      have o2: "db_lrange ?db2 ''Cache.store:outputs'' 0 (- 1) = Inr outs"
        using o1 by (simp add: db_lrange_def)
      let ?db3 = "?db2(''Cache.store:outputs'' \<mapsto> RList (outs @ [?kb]))"
      have p2: "r_rpush E ?db2 (ascii ''Cache.store'' @ ascii '':outputs'') (PStr (py_str E v))
        = Inr (length outs + 1, ?db3)"
        by (simp add: r_rpush_def enc_okey encode_def v uuid_text_encode [OF u]
              db_rpush_list [OF o2])
      have "body (call_history E (store E)) w args kwargs = (Inr v, w1\<lparr>redis := ?db3\<rparr>)"
        by (simp add: unf p1 p2)
      with b have rw: "r = Inr v" "w' = w1\<lparr>redis := ?db3\<rparr>" by simp_all
      show ?thesis
        using bi c1 e1 by (simp add: rw v uuid_text_encode [OF u] db_lrange_def slice_all)
    qed
  qed
qed


lemma qualname_history_store [simp]: "qualname (call_history E (store E)) = ascii ''Cache.store''"
  by (simp add: call_history_def store_def)

lemma Cache_store_body:
  "body (Cache_store E) w args kwargs =
     (case r_incr (redis w) (ascii ''Cache.store'') of
        Inl e \<Rightarrow> (Inl e, w)
      | Inr (n, db) \<Rightarrow> body (call_history E (store E)) (w\<lparr>redis := db\<rparr>) args kwargs)"
  by (simp add: Cache_store_def count_calls_def Let_def)

lemma Cache_store_step:
  assumes u: "uuid_text (shd (entropy w))"
    and c: "db_get (redis w) ''Cache.store'' = Inr (if n = 0 then None else Some (show_int (int n)))"
    and i: "db_lrange (redis w) ''Cache.store:inputs'' 0 (- 1) = Inr ins"
    and o: "db_lrange (redis w) ''Cache.store:outputs'' 0 (- 1) = Inr outs"
    and b: "body (Cache_store E) w args kwargs = (r, w')"
  shows "db_get (redis w') ''Cache.store'' = Inr (Some (show_int (int (Suc n))))
    \<and> (entropy w' = entropy w \<or> entropy w' = stl (entropy w))
    \<and> (case r of
          Inl e \<Rightarrow>
            db_lrange (redis w') ''Cache.store:inputs'' 0 (- 1) = Inr ins
            \<and> db_lrange (redis w') ''Cache.store:outputs'' 0 (- 1) = Inr outs
        | Inr v \<Rightarrow>
            (\<exists>bi bo. utf8_encode (str_tuple E args) = Inr bi
               \<and> utf8_encode (py_str E v) = Inr bo
               \<and> db_lrange (redis w') ''Cache.store:inputs'' 0 (- 1) = Inr (ins @ [bi])
               \<and> db_lrange (redis w') ''Cache.store:outputs'' 0 (- 1) = Inr (outs @ [bo])))"
proof -
  let ?db1 = "(redis w)(''Cache.store'' \<mapsto> RString (show_int (int n + 1)))"
  let ?w1 = "w\<lparr>redis := ?db1\<rparr>"
  have inc: "r_incr (redis w) (ascii ''Cache.store'') = Inr (int n + 1, ?db1)"
    by (simp add: r_incr_def enc_ckey db_incr_counter [OF c])
  have b1: "body (call_history E (store E)) ?w1 args kwargs = (r, w')"
    using b by (simp add: Cache_store_body inc)
  have u1: "uuid_text (shd (entropy ?w1))" using u by simp
  have i1: "db_lrange (redis ?w1) ''Cache.store:inputs'' 0 (- 1) = Inr ins"
    using i by (simp add: db_lrange_def)
  have o1: "db_lrange (redis ?w1) ''Cache.store:outputs'' 0 (- 1) = Inr outs"
    using o by (simp add: db_lrange_def)
  have s: "int n + 1 = int (Suc n)" by simp
  show ?thesis
    using history_store_step [OF u1 i1 o1 b1]
    by (simp add: db_get_def s)
qed

lemma sset_stl_subset: "\<forall>k\<in>sset s. P k \<Longrightarrow> \<forall>k\<in>sset (stl s). P k"
  by (auto dest: stl_sset)

lemma call_seq_Cache_store:
  assumes "\<forall>k\<in>sset (entropy w). uuid_text k"
    and "db_get (redis w) ''Cache.store'' = Inr (if n = 0 then None else Some (show_int (int n)))"
    and "db_lrange (redis w) ''Cache.store:inputs'' 0 (- 1) = Inr ins"
    and "db_lrange (redis w) ''Cache.store:outputs'' 0 (- 1) = Inr outs"
    and "call_seq (Cache_store E) w cs = (rs, w')"
  shows "length rs = length cs
    \<and> db_get (redis w') ''Cache.store''
        = Inr (if n + length cs = 0 then None else Some (show_int (int (n + length cs))))
    \<and> (\<exists>ins' outs'.
          db_lrange (redis w') ''Cache.store:inputs'' 0 (- 1) = Inr (ins @ ins')
        \<and> db_lrange (redis w') ''Cache.store:outputs'' 0 (- 1) = Inr (outs @ outs')
        \<and> map Inr ins' = map (\<lambda>(a, v). utf8_encode (str_tuple E a)) (returned cs rs)
        \<and> map Inr outs' = map (\<lambda>(a, v). utf8_encode (py_str E v)) (returned cs rs))"
  using assms
proof (induction cs arbitrary: w n ins outs rs)
  case Nil
  then show ?case by simp
next
  case (Cons c cs)
  obtain r w1 where b: "body (Cache_store E) w (fst c) (snd c) = (r, w1)"
    by (cases "body (Cache_store E) w (fst c) (snd c)")
  obtain rs1 where rest: "call_seq (Cache_store E) w1 cs = (rs1, w')" and rs: "rs = r # rs1"
    using Cons.prems(5) b by (auto split: prod.splits)
  have u: "uuid_text (shd (entropy w))" using Cons.prems(1) by (simp add: shd_sset)
  note step = Cache_store_step [OF u Cons.prems(2) Cons.prems(3) Cons.prems(4) b]
  have c1: "db_get (redis w1) ''Cache.store''
      = Inr (if Suc n = 0 then None else Some (show_int (int (Suc n))))"
    using step by simp
  have e1: "\<forall>k\<in>sset (entropy w1). uuid_text k"
    using step Cons.prems(1) sset_stl_subset [of "entropy w" uuid_text] by auto
  show ?case
  proof (cases r)
    case (Inl e)
    with step have i1: "db_lrange (redis w1) ''Cache.store:inputs'' 0 (- 1) = Inr ins"
      and o1: "db_lrange (redis w1) ''Cache.store:outputs'' 0 (- 1) = Inr outs" by simp_all
    from Cons.IH [OF e1 c1 i1 o1 rest] show ?thesis
      by (simp add: rs Inl)
  next
    case (Inr v)
    with step obtain bi bo where bi: "utf8_encode (str_tuple E (fst c)) = Inr bi"
      and bo: "utf8_encode (py_str E v) = Inr bo"
      and i1: "db_lrange (redis w1) ''Cache.store:inputs'' 0 (- 1) = Inr (ins @ [bi])"
      and o1: "db_lrange (redis w1) ''Cache.store:outputs'' 0 (- 1) = Inr (outs @ [bo])"
      by auto
    from Cons.IH [OF e1 c1 i1 o1 rest] obtain ins' outs' where
      l: "length rs1 = length cs"
      and cc: "db_get (redis w') ''Cache.store''
        = Inr (if Suc n + length cs = 0 then None else Some (show_int (int (Suc n + length cs))))"
      and ii: "db_lrange (redis w') ''Cache.store:inputs'' 0 (- 1) = Inr ((ins @ [bi]) @ ins')"
      and oo: "db_lrange (redis w') ''Cache.store:outputs'' 0 (- 1) = Inr ((outs @ [bo]) @ outs')"
      and mi: "map Inr ins' = map (\<lambda>(a, v). utf8_encode (str_tuple E a)) (returned cs rs1)"
      and mo: "map Inr outs' = map (\<lambda>(a, v). utf8_encode (py_str E v)) (returned cs rs1)"
      by blast
    have "db_lrange (redis w') ''Cache.store:inputs'' 0 (- 1) = Inr (ins @ (bi # ins'))"
      using ii by simp
    moreover have "db_lrange (redis w') ''Cache.store:outputs'' 0 (- 1) = Inr (outs @ (bo # outs'))"
      using oo by simp
    moreover have "map Inr (bi # ins') = map (\<lambda>(a, v). utf8_encode (str_tuple E a)) (returned (c # cs) rs)"
      using mi bi by (simp add: rs Inr)
    moreover have "map Inr (bo # outs') = map (\<lambda>(a, v). utf8_encode (py_str E v)) (returned (c # cs) rs)"
      using mo bo by (simp add: rs Inr)
    ultimately show ?thesis using l cc by (simp add: rs)
  qed
qed

section \<open>Further properties of the program\<close>

lemma sample_uuid_text: "uuid_text sample_uuid"
  unfolding sample_uuid_def by code_simp

lemma sample_uuid_encode:
  "utf8_encode sample_uuid = Inr ''123e4567-e89b-42d3-a456-426614174000''"
  by (simp add: sample_uuid_def utf8_encode_ascii)

lemma sample_world_entropy: "\<forall>k\<in>sset (entropy (sample_world db)). uuid_text k"
  by (simp add: sample_world_def sample_uuid_text)

lemma Cache_init_fresh:
  "db_get (redis (Cache_init w)) k = Inr None"
  "db_lrange (redis (Cache_init w)) k 0 (- 1) = Inr []"
  "entropy (Cache_init w) = entropy w"
  by (simp_all add: Cache_init_def r_flushdb_def db_flush_def db_get_def db_lrange_def)

lemma returned_length:
  "length rs = length cs \<Longrightarrow> length (returned cs rs) = length (filter (\<lambda>r. \<not> isl r) rs)"
proof (induction cs rs rule: list_induct2')
  case (4 c cs r rs)
  then show ?case by (cases r) auto
qed auto

lemma call_seq_fresh:
  assumes "\<forall>k\<in>sset (entropy w). uuid_text k"
    and "call_seq (Cache_store E) (Cache_init w) cs = (rs, w')"
  shows "length rs = length cs
    \<and> db_get (redis w') ''Cache.store''
        = Inr (if cs = [] then None else Some (show_int (int (length cs))))
    \<and> (\<exists>ins outs.
          db_lrange (redis w') ''Cache.store:inputs'' 0 (- 1) = Inr ins
        \<and> db_lrange (redis w') ''Cache.store:outputs'' 0 (- 1) = Inr outs
        \<and> map Inr ins = map (\<lambda>(a, v). utf8_encode (str_tuple E a)) (returned cs rs)
        \<and> map Inr outs = map (\<lambda>(a, v). utf8_encode (py_str E v)) (returned cs rs))"
proof -
  have e: "\<forall>k\<in>sset (entropy (Cache_init w)). uuid_text k"
    using assms(1) by (simp add: Cache_init_fresh)
  have c: "db_get (redis (Cache_init w)) ''Cache.store''
      = Inr (if (0::nat) = 0 then None else Some (show_int (int 0)))"
    by (simp add: Cache_init_fresh)
  show ?thesis
    using call_seq_Cache_store [OF e c Cache_init_fresh(2) Cache_init_fresh(2) assms(2)]
    by simp
qed

lemma store_no_argument:
  "body (Cache_store E) w [] [] =
     (case r_incr (redis w) (ascii ''Cache.store'') of
        Inl e \<Rightarrow> (Inl e, w)
      | Inr (n, db) \<Rightarrow> (Inl TypeError, w\<lparr>redis := db\<rparr>))"
  by (simp add: Cache_store_body call_history_def store_body bind_data_def split: sum.splits)

lemma ikey_text: "ascii ''Cache.store:inputs'' = ascii ''Cache.store'' @ ascii '':inputs''"
  by (simp add: ascii_def)

lemma okey_text: "ascii ''Cache.store:outputs'' = ascii ''Cache.store'' @ ascii '':outputs''"
  by (simp add: ascii_def)

lemma show_int_5: "show_int 5 = ''5''" by code_simp

lemma str_tuple_5: "utf8_encode (str_tuple plain_env [PInt 5]) = Inr ''(5,)''"
  by (simp add: str_tuple_def show_int_5 utf8_encode_append utf8_encode_ascii)

lemma qualname_store: "qualname (store E) = ascii ''Cache.store''"
  by (simp add: store_def)

lemma sample_first_call:
  "body (Cache_store plain_env) (Cache_init (sample_world db)) [PInt 5] [] =
     (Inr (PStr sample_uuid),
      sample_world
        [''Cache.store'' \<mapsto> RString ''1'',
         ''123e4567-e89b-42d3-a456-426614174000'' \<mapsto> RString ''5'',
         ''Cache.store:inputs'' \<mapsto> RList [''(5,)''],
         ''Cache.store:outputs'' \<mapsto> RList [''123e4567-e89b-42d3-a456-426614174000'']])"
proof -
  have 1: "show_int 1 = ''1''" by code_simp
  show ?thesis
    by (simp add: Cache_store_body store_body call_history_def Cache_init_def sample_world_def
          r_flushdb_def db_flush_def r_incr_def enc_ckey enc_ikey enc_okey db_incr_def
          bind_data_def r_set_def sample_uuid_encode encode_def db_set_def show_int_5 1
          utf8_encode_ascii r_rpush_def db_rpush_def str_tuple_5 qualname_store)
qed

lemma sample_two_calls:
  "fst (call_seq (Cache_store plain_env) (Cache_init (sample_world db)) [([PInt 5], []), ([], [])])
     = [Inr (PStr sample_uuid), Inl TypeError]"
proof -
  have "show_int 1 = ''1''" by code_simp
  then have 1: "redis_int ''1'' = Some 1"
    using redis_int_show_int [of 1] by simp
  have sel: "\<And>d. redis (sample_world d) = d" by (simp add: sample_world_def)
  show ?thesis
    by (simp add: sample_first_call store_no_argument r_incr_def enc_ckey db_incr_def sel 1)
qed

lemma redis_sample_world: "redis (sample_world db) = db"
  by (simp add: sample_world_def)

lemma history_keys_differ:
  assumes "utf8_encode (q @ ascii '':inputs'') = Inr ik"
    and "utf8_encode (q @ ascii '':outputs'') = Inr ok"
  shows "ik \<noteq> ok"
proof -
  have i: "utf8_encode (ascii '':inputs'') = Inr '':inputs''" by (simp add: utf8_encode_ascii)
  have o: "utf8_encode (ascii '':outputs'') = Inr '':outputs''" by (simp add: utf8_encode_ascii)
  from assms obtain qb where "ik = qb @ '':inputs''" "ok = qb @ '':outputs''"
    by (auto simp: utf8_encode_append i o split: sum.splits)
  then show ?thesis by simp
qed

lemma db_rpush_Inr:
  assumes "db_rpush db k v = Inr (n, db1)"
  shows "\<exists>xs. db_lrange db k 0 (- 1) = Inr xs \<and> db1 = db(k \<mapsto> RList (xs @ [v]))"
  using assms
  by (auto simp: db_rpush_def db_lrange_def slice_all split: option.splits rvalue.splits)

lemma sample_history_call:
  "body (call_history plain_env (store plain_env)) (sample_world Map.empty) []
      [(ascii ''data'', PInt i)] =
     (Inr (PStr sample_uuid),
      sample_world
        [''123e4567-e89b-42d3-a456-426614174000'' \<mapsto> RString (show_int i),
         ''Cache.store:inputs'' \<mapsto> RList [''()''],
         ''Cache.store:outputs'' \<mapsto> RList [''123e4567-e89b-42d3-a456-426614174000'']])"
proof -
  have t: "utf8_encode (str_tuple plain_env []) = Inr ''()''"
    by (simp add: str_tuple_def utf8_encode_append utf8_encode_ascii)
  show ?thesis
    by (simp add: store_body call_history_def sample_world_def
          enc_ikey enc_okey bind_data_def r_set_def sample_uuid_encode encode_def db_set_def
          utf8_encode_show_int r_rpush_def db_rpush_def t qualname_store)
qed

lemma show_int_0: "show_int 0 = ''0''" by code_simp

lemma show_int_1: "show_int 1 = ''1''" by code_simp

lemma show_int_2: "show_int 2 = ''2''" by code_simp

lemma redis_int_1: "redis_int ''1'' = Some 1"
  using redis_int_show_int [of 1] by (simp add: show_int_1)

lemma replay_reads:
  fixes E :: "'f pyenv"
  assumes "(r_get (redis w) (qualname fn) :: error + 'f pyval) = Inr got"
    and "r_lrange (redis w) (qualname fn @ ascii '':inputs'') 0 (- 1) = Inr ins"
    and "r_lrange (redis w) (qualname fn @ ascii '':outputs'') 0 (- 1) = Inr outs"
  shows "replay E w fn =
     ((qualname fn @ ascii '' was called ''
         @ (case py_decode got of Inl e \<Rightarrow> ascii ''0'' | Inr s \<Rightarrow> s) @ ascii '' times:'')
      # map (\<lambda>(i, out). qualname fn @ ascii ''(*'' @ decode_or_empty i
                           @ ascii '') -> '' @ decode_or_empty out) (zip ins outs),
      None)"
  using assms by (simp add: replay_def Let_def show_int_0 split: sum.splits)

lemma str_tuple_a: "str_tuple E [PStr (ascii ''a'')] = ascii ''('a',)''"
  by (simp add: str_tuple_def repr_str_def quote_of_def repr_char_def ascii_def)

lemma str_tuple_b: "str_tuple E [PStr (ascii ''b'')] = ascii ''('b',)''"
  by (simp add: str_tuple_def repr_str_def quote_of_def repr_char_def ascii_def)

lemma op_keys:
  "utf8_encode (ascii ''op'') = Inr ''op''"
  "utf8_encode (ascii ''op'' @ ascii '':inputs'') = Inr ''op:inputs''"
  "utf8_encode (ascii ''op'' @ ascii '':outputs'') = Inr ''op:outputs''"
  by (simp_all add: utf8_encode_append utf8_encode_ascii)

lemma op_two_calls:
  fixes E :: "'f pyenv"
  assumes q: "qualname m = ascii ''op''"
    and a: "\<forall>s. body m s [PStr (ascii ''a'')] [] = (Inr (PStr (ascii ''k1'')), s)"
    and b: "\<forall>s. body m s [PStr (ascii ''b'')] [] = (Inr (PStr (ascii ''k2'')), s)"
  shows "redis (snd (call_seq (count_calls (call_history E m)) (Cache_init w)
            [([PStr (ascii ''a'')], []), ([PStr (ascii ''b'')], [])]))
         = [''op'' \<mapsto> RString ''2'',
            ''op:inputs'' \<mapsto> RList [''('a',)'', ''('b',)''],
            ''op:outputs'' \<mapsto> RList [''k1'', ''k2'']]"
proof -
  let ?I = "count_calls (call_history E m)"
  let ?db1 = "[''op'' \<mapsto> RString ''1'', ''op:inputs'' \<mapsto> RList [''('a',)''],
               ''op:outputs'' \<mapsto> RList [''k1'']]"
  let ?db2 = "[''op'' \<mapsto> RString ''2'',
            ''op:inputs'' \<mapsto> RList [''('a',)'', ''('b',)''],
            ''op:outputs'' \<mapsto> RList [''k1'', ''k2'']]"
  have body: "body ?I s args kwargs =
     (case r_incr (redis s) (ascii ''op'') of
        Inl e \<Rightarrow> (Inl e, s)
      | Inr (n, db) \<Rightarrow> body (call_history E m) (s\<lparr>redis := db\<rparr>) args kwargs)" for s args kwargs
  proof -
    have "qualname (call_history E m) = ascii ''op''" by (simp add: call_history_def q)
    then show ?thesis by (simp add: count_calls_def Let_def)
  qed
  have hist: "body (call_history E m) s args kwargs =
     (case body m s args kwargs of
        (Inl e, self1) \<Rightarrow> (Inl e, self1)
      | (Inr output, self1) \<Rightarrow>
          (case r_rpush E (redis self1) (ascii ''op'' @ ascii '':inputs'') (PStr (str_tuple E args)) of
             Inl e \<Rightarrow> (Inl e, self1)
           | Inr (n, db1) \<Rightarrow>
               (case r_rpush E db1 (ascii ''op'' @ ascii '':outputs'') (PStr (py_str E output)) of
                  Inl e \<Rightarrow> (Inl e, self1\<lparr>redis := db1\<rparr>)
                | Inr (m, db2) \<Rightarrow> (Inr output, self1\<lparr>redis := db2\<rparr>))))" for s args kwargs
    by (simp add: call_history_def q)
  have 1: "body ?I (Cache_init w) [PStr (ascii ''a'')] [] = (Inr (PStr (ascii ''k1'')), w\<lparr>redis := ?db1\<rparr>)"
    using a
    by (simp add: body hist Cache_init_def r_flushdb_def db_flush_def r_incr_def
          db_incr_def op_keys show_int_1 r_rpush_def encode_def str_tuple_a utf8_encode_ascii
          db_rpush_def fun_upd_twist)
  have 2: "body ?I (w\<lparr>redis := ?db1\<rparr>) [PStr (ascii ''b'')] [] = (Inr (PStr (ascii ''k2'')), w\<lparr>redis := ?db2\<rparr>)"
    using b 
    by (simp add: body hist r_incr_def
          db_incr_def op_keys redis_int_1 show_int_2 r_rpush_def encode_def str_tuple_b utf8_encode_ascii
          db_rpush_def)
  show ?thesis by (simp add: 1 2 del: fun_upd_apply)
qed

lemma replay_header:
  fixes E :: "'f pyenv"
  assumes "(r_get (redis w) (qualname fn) :: error + 'f pyval) = Inr got"
  shows "\<exists>rest err. replay E w fn =
     ((qualname fn @ ascii '' was called ''
         @ (case py_decode got of Inl e \<Rightarrow> ascii ''0'' | Inr s \<Rightarrow> s) @ ascii '' times:'')
      # rest, err)"
  using assms by (auto simp: replay_def Let_def show_int_0 split: sum.splits)
















lemma r_rpush_Inr:
  assumes "r_rpush E db key v = Inr (n, db')"
  shows "\<exists>k b xs. utf8_encode key = Inr k \<and> db' = db(k \<mapsto> RList (xs @ [b]))"
proof -
  from assms obtain k b where k: "utf8_encode key = Inr k" and p: "db_rpush db k b = Inr (n, db')"
    by (auto simp: r_rpush_def split: sum.splits)
  from db_rpush_Inr [OF p] k show ?thesis by blast
qed

lemma history_store_keeps_counter:
  assumes u: "uuid_text (shd (entropy w))"
    and b: "body (call_history E (store E)) w args kwargs = (r, w')"
  shows "redis w' ''Cache.store'' = redis w ''Cache.store''"
proof -
  obtain r1 w1 where st: "body (store E) w args kwargs = (r1, w1)"
    by (cases "body (store E) w args kwargs")
  have c1: "redis w1 ''Cache.store'' = redis w ''Cache.store''"
  proof (cases r1)
    case (Inl e)
    with st show ?thesis by (auto dest: store_raises)
  next
    case (Inr v)
    with st store_returns [of E w args kwargs v w1] uuid_text_encode [OF u] uuid_key_fresh [OF u]
    show ?thesis by auto
  qed
  show ?thesis
  proof (cases r1)
    case (Inl e)
    with st b c1 show ?thesis by (simp add: call_history_raises)
  next
    case (Inr v)
    show ?thesis
    proof (cases "r_rpush E (redis w1) (ascii ''Cache.store'' @ ascii '':inputs'') (PStr (str_tuple E args))")
      case (Inl e)
      with st Inr b c1 show ?thesis by (simp add: call_history_def qualname_store)
    next
      case p1: (Inr p)
      obtain n db1 where p: "p = (n, db1)" by (cases p)
      from r_rpush_Inr [OF p1 [unfolded p]] obtain b1 xs where
        db1: "db1 = (redis w1)(''Cache.store:inputs'' \<mapsto> RList (xs @ [b1]))"
        by (auto simp: enc_ikey)
      show ?thesis
      proof (cases "r_rpush E db1 (ascii ''Cache.store'' @ ascii '':outputs'') (PStr (py_str E v))")
        case (Inl e)
        with st Inr b c1 p1 p db1 show ?thesis
          by (auto simp: call_history_def qualname_store)
      next
        case p2: (Inr p')
        obtain m db2 where p': "p' = (m, db2)" by (cases p')
        from r_rpush_Inr [OF p2 [unfolded p']] obtain b2 ys where
          db2: "db2 = db1(''Cache.store:outputs'' \<mapsto> RList (ys @ [b2]))"
          by (auto simp: enc_okey)
        from st Inr b p1 p p2 p' have "w' = w1\<lparr>redis := db2\<rparr>"
          by (auto simp: call_history_def qualname_store)
        then show ?thesis using c1 by (simp add: db2 db1)
      qed
    qed
  qed
qed

lemma Cache_store_counts_one:
  assumes u: "uuid_text (shd (entropy w))"
    and c: "db_get (redis w) ''Cache.store'' = Inr (if n = 0 then None else Some (show_int (int n)))"
  shows "db_get (redis (snd (body (Cache_store E) w args kwargs))) ''Cache.store''
           = Inr (Some (show_int (int (Suc n))))"
proof -
  let ?db1 = "(redis w)(''Cache.store'' \<mapsto> RString (show_int (int n + 1)))"
  let ?w1 = "w\<lparr>redis := ?db1\<rparr>"
  have inc: "r_incr (redis w) (ascii ''Cache.store'') = Inr (int n + 1, ?db1)"
    by (simp add: r_incr_def enc_ckey db_incr_counter [OF c])
  obtain r w' where b: "body (call_history E (store E)) ?w1 args kwargs = (r, w')"
    by (cases "body (call_history E (store E)) ?w1 args kwargs")
  have u1: "uuid_text (shd (entropy ?w1))" using u by simp
  have s: "int n + 1 = int (Suc n)" by simp
  from history_store_keeps_counter [OF u1 b]
  have "redis w' ''Cache.store'' = Some (RString (show_int (int (Suc n))))"
    by (simp add: s)
  then show ?thesis
    by (simp add: Cache_store_body inc b db_get_def)
qed








section \<open>The claims\<close>

text \<open>
  C1. Every call of \<^verbatim>\<open>Cache.store\<close> first increments the counter kept under the
  name \<^verbatim>\<open>Cache.store\<close> and then runs the wrapped method in the state the increment
  left. A call that finds the counter at \<open>n\<close> leaves it at \<open>n + 1\<close>, whether the
  wrapped method returns or raises. After a new \<^verbatim>\<open>Cache\<close> has been called \<open>N\<close>
  times, with any arguments, the counter reads \<open>N\<close>.
\<close>

theorem count_calls_counts_every_call:
  fixes E :: "'f pyenv"
  assumes "\<forall>k\<in>sset (entropy w). uuid_text k"
  shows "body (Cache_store E) self args kwargs =
           (case r_incr (redis self) (ascii ''Cache.store'') of
              Inl e \<Rightarrow> (Inl e, self)
            | Inr (n, db) \<Rightarrow> body (call_history E (store E)) (self\<lparr>redis := db\<rparr>) args kwargs)
    \<and> (uuid_text (shd (entropy self))
        \<and> db_get (redis self) ''Cache.store''
            = Inr (if n = 0 then None else Some (show_int (int n)))
        \<longrightarrow> db_get (redis (snd (body (Cache_store E) self args kwargs))) ''Cache.store''
            = Inr (Some (show_int (int (Suc n)))))
    \<and> length (fst (call_seq (Cache_store E) (Cache_init w) cs)) = length cs
    \<and> (r_get (redis (snd (call_seq (Cache_store E) (Cache_init w) cs))) (ascii ''Cache.store'')
          :: error + 'f pyval)
        = Inr (if cs = [] then PNone else PBytes (show_int (int (length cs))))"
proof -
  obtain rs w' where run: "call_seq (Cache_store E) (Cache_init w) cs = (rs, w')"
    by (cases "call_seq (Cache_store E) (Cache_init w) cs")
  from call_seq_fresh [OF assms run]
  have l: "length rs = length cs"
    and c: "db_get (redis w') ''Cache.store''
              = Inr (if cs = [] then None else Some (show_int (int (length cs))))"
    by simp_all
  have r: "(r_get (redis w') (ascii ''Cache.store'') :: error + 'f pyval)
      = Inr (if cs = [] then PNone else PBytes (show_int (int (length cs))))"
    by (simp add: r_get_def enc_ckey c)
  have first: "body (Cache_store E) self args kwargs =
           (case r_incr (redis self) (ascii ''Cache.store'') of
              Inl e \<Rightarrow> (Inl e, self)
            | Inr (n, db) \<Rightarrow> body (call_history E (store E)) (self\<lparr>redis := db\<rparr>) args kwargs)"
    by (rule Cache_store_body)
  have one: "db_get (redis (snd (body (Cache_store E) self args kwargs))) ''Cache.store''
            = Inr (Some (show_int (int (Suc n))))"
    if "uuid_text (shd (entropy self))"
      and "db_get (redis self) ''Cache.store''
            = Inr (if n = 0 then None else Some (show_int (int n)))"
    using that by (rule Cache_store_counts_one)
  have seq: "length (fst (call_seq (Cache_store E) (Cache_init w) cs)) = length cs"
    "(r_get (redis (snd (call_seq (Cache_store E) (Cache_init w) cs))) (ascii ''Cache.store'')
          :: error + 'f pyval)
        = Inr (if cs = [] then PNone else PBytes (show_int (int (length cs))))"
    using l r by (simp_all add: run del: call_seq.simps)
  show ?thesis using first one seq by blast
qed

theorem count_calls_counts_every_call_witness:
  "fst (body (Cache_store plain_env) (Cache_init (sample_world Map.empty)) [] []) = Inl TypeError
   \<and> r_get (redis (snd (call_seq (Cache_store plain_env) (Cache_init (sample_world Map.empty))
               [([PInt 5], []), ([], []), ([PNone], [])]))) (ascii ''Cache.store'')
     = Inr (PBytes ''3'' :: unit pyval)"
proof -
  have 3: "show_int 3 = ''3''" by code_simp
  have "fst (body (Cache_store plain_env) (Cache_init (sample_world Map.empty)) [] []) = Inl TypeError"
    by (simp add: store_no_argument r_incr_def enc_ckey db_incr_def Cache_init_def r_flushdb_def
          db_flush_def)
  then show ?thesis
    using count_calls_counts_every_call [OF sample_world_entropy,
        where E = plain_env and db1 = Map.empty and self = "sample_world Map.empty"
          and args = "[]" and kwargs = "[]"
          and cs = "[([PInt 5], []), ([], []), ([PNone], [])]"]
    by (simp add: 3 del: call_seq.simps)
qed

text \<open>
  C2. The history wrapper appends to the two lists only after the wrapped method has
  returned: when the method raises, the wrapper raises the same exception in the state
  the method left, and \<^verbatim>\<open>store\<close> leaves the database as it was. After any calls of
  a new \<^verbatim>\<open>Cache\<close>, the lists \<^verbatim>\<open>Cache.store:inputs\<close> and
  \<^verbatim>\<open>Cache.store:outputs\<close> have one entry for each call that returned, in order:
  the text of its arguments and the text of its result.
\<close>

theorem call_history_records_returned_calls:
  fixes E :: "'f pyenv"
  assumes "\<forall>k\<in>sset (entropy w). uuid_text k"
  shows "(body m self args kwargs = (Inl e, self1) \<longrightarrow>
            body (call_history E m) self args kwargs = (Inl e, self1))
    \<and> (body (store E) self args kwargs = (Inl e, self1) \<longrightarrow> redis self1 = redis self)
    \<and> (\<exists>ins outs.
          r_lrange (redis (snd (call_seq (Cache_store E) (Cache_init w) cs)))
            (ascii ''Cache.store:inputs'') 0 (- 1) = Inr ins
        \<and> r_lrange (redis (snd (call_seq (Cache_store E) (Cache_init w) cs)))
            (ascii ''Cache.store:outputs'') 0 (- 1) = Inr outs
        \<and> length ins = length (filter (\<lambda>r. \<not> isl r) (fst (call_seq (Cache_store E) (Cache_init w) cs)))
        \<and> length outs = length (filter (\<lambda>r. \<not> isl r) (fst (call_seq (Cache_store E) (Cache_init w) cs)))
        \<and> map Inr ins = map (\<lambda>(a, v). utf8_encode (str_tuple E a))
             (returned cs (fst (call_seq (Cache_store E) (Cache_init w) cs)))
        \<and> map Inr outs = map (\<lambda>(a, v). utf8_encode (py_str E v))
             (returned cs (fst (call_seq (Cache_store E) (Cache_init w) cs))))"
proof -
  obtain rs w' where run: "call_seq (Cache_store E) (Cache_init w) cs = (rs, w')"
    by (cases "call_seq (Cache_store E) (Cache_init w) cs")
  from call_seq_fresh [OF assms run] obtain ins outs where
    l: "length rs = length cs"
    and i: "db_lrange (redis w') ''Cache.store:inputs'' 0 (- 1) = Inr ins"
    and o: "db_lrange (redis w') ''Cache.store:outputs'' 0 (- 1) = Inr outs"
    and mi: "map Inr ins = map (\<lambda>(a, v). utf8_encode (str_tuple E a)) (returned cs rs)"
    and mo: "map Inr outs = map (\<lambda>(a, v). utf8_encode (py_str E v)) (returned cs rs)"
    by blast
  have li: "length ins = length (filter (\<lambda>r. \<not> isl r) rs)"
    using arg_cong [OF mi, of length] returned_length [OF l] by simp
  have lo: "length outs = length (filter (\<lambda>r. \<not> isl r) rs)"
    using arg_cong [OF mo, of length] returned_length [OF l] by simp
  have ri: "r_lrange (redis w') (ascii ''Cache.store:inputs'') 0 (- 1) = Inr ins"
    by (simp add: r_lrange_def ikey_text enc_ikey i)
  have ro: "r_lrange (redis w') (ascii ''Cache.store:outputs'') 0 (- 1) = Inr outs"
    by (simp add: r_lrange_def okey_text enc_okey o)
  have "\<exists>ins outs.
          r_lrange (redis w') (ascii ''Cache.store:inputs'') 0 (- 1) = Inr ins
        \<and> r_lrange (redis w') (ascii ''Cache.store:outputs'') 0 (- 1) = Inr outs
        \<and> length ins = length (filter (\<lambda>r. \<not> isl r) rs)
        \<and> length outs = length (filter (\<lambda>r. \<not> isl r) rs)
        \<and> map Inr ins = map (\<lambda>(a, v). utf8_encode (str_tuple E a)) (returned cs rs)
        \<and> map Inr outs = map (\<lambda>(a, v). utf8_encode (py_str E v)) (returned cs rs)"
    using ri ro li lo mi mo by blast
  then show ?thesis
    by (simp add: run call_history_raises store_raises del: call_seq.simps)
qed

theorem call_history_records_returned_calls_witness:
  "fst (call_seq (Cache_store plain_env) (Cache_init (sample_world Map.empty))
          [([PInt 5], []), ([], [])]) = [Inr (PStr sample_uuid), Inl TypeError]
   \<and> r_lrange (redis (snd (call_seq (Cache_store plain_env) (Cache_init (sample_world Map.empty))
          [([PInt 5], []), ([], [])]))) (ascii ''Cache.store:inputs'') 0 (- 1) = Inr [''(5,)'']
   \<and> r_lrange (redis (snd (call_seq (Cache_store plain_env) (Cache_init (sample_world Map.empty))
          [([PInt 5], []), ([], [])]))) (ascii ''Cache.store:outputs'') 0 (- 1)
       = Inr [''123e4567-e89b-42d3-a456-426614174000'']"
proof -
  let ?cs = "[([PInt 5], []), ([], [])] :: (unit pyval list \<times> unit kwargs) list"
  let ?run = "call_seq (Cache_store plain_env) (Cache_init (sample_world Map.empty)) ?cs"
  have rs: "fst ?run = [Inr (PStr sample_uuid), Inl TypeError]"
    by (rule sample_two_calls)
  from call_history_records_returned_calls [OF sample_world_entropy,
      where E = plain_env and db1 = Map.empty and cs = ?cs]
  obtain ins outs where
    i: "r_lrange (redis (snd ?run)) (ascii ''Cache.store:inputs'') 0 (- 1) = Inr ins"
    and o: "r_lrange (redis (snd ?run)) (ascii ''Cache.store:outputs'') 0 (- 1) = Inr outs"
    and mi: "map Inr ins = map (\<lambda>(a, v). utf8_encode (str_tuple plain_env a)) (returned ?cs (fst ?run))"
    and mo: "map Inr outs = map (\<lambda>(a, v). utf8_encode (py_str plain_env v)) (returned ?cs (fst ?run))"
    by blast
  have "ins = [''(5,)'']"
    using mi by (auto simp: rs str_tuple_5 simp del: call_seq.simps)
  moreover have "outs = [''123e4567-e89b-42d3-a456-426614174000'']"
    using mo by (auto simp: rs sample_uuid_encode simp del: call_seq.simps)
  ultimately show ?thesis using rs i o by (simp del: call_seq.simps)
qed




text \<open>
  C4. \<^verbatim>\<open>replay\<close> reads the counter and the two lists of the operation's name,
  pairs the lists by position (as many pairs as the shorter list has, with no error
  when the lengths differ) and prints a header with the name and the count, then one
  line \<^verbatim>\<open>name(*input) -> output\<close> for each pair. For an operation \<^verbatim>\<open>op\<close>
  under both decorators, called on a new \<^verbatim>\<open>Cache\<close> with \<^verbatim>\<open>'a'\<close>, returning
  \<^verbatim>\<open>k1\<close>, and with \<^verbatim>\<open>'b'\<close>, returning \<^verbatim>\<open>k2\<close>, the report is the header
  with \<^verbatim>\<open>called 2 times\<close> and the two lines of the calls.
\<close>

theorem replay_report:
  fixes E :: "'f pyenv"
  shows "((r_get (redis w) (qualname fn) :: error + 'f pyval) = Inr got
          \<and> r_lrange (redis w) (qualname fn @ ascii '':inputs'') 0 (- 1) = Inr ins
          \<and> r_lrange (redis w) (qualname fn @ ascii '':outputs'') 0 (- 1) = Inr outs
          \<longrightarrow>
          replay E w fn =
            ((qualname fn @ ascii '' was called ''
                @ (case py_decode got of Inl e \<Rightarrow> ascii ''0'' | Inr s \<Rightarrow> s)
                @ ascii '' times:'')
             # map (\<lambda>(i, out). qualname fn @ ascii ''(*'' @ decode_or_empty i
                                  @ ascii '') -> '' @ decode_or_empty out) (zip ins outs),
             None)
          \<and> length (fst (replay E w fn)) = 1 + min (length ins) (length outs))
    \<and> (qualname m = ascii ''op''
        \<and> (\<forall>s. body m s [PStr (ascii ''a'')] [] = (Inr (PStr (ascii ''k1'')), s))
        \<and> (\<forall>s. body m s [PStr (ascii ''b'')] [] = (Inr (PStr (ascii ''k2'')), s))
        \<longrightarrow>
        replay E
          (snd (call_seq (count_calls (call_history E m)) (Cache_init w0)
                  [([PStr (ascii ''a'')], []), ([PStr (ascii ''b'')], [])]))
          (count_calls (call_history E m))
        = ([ascii ''op was called 2 times:'', ascii ''op(*('a',)) -> k1'',
            ascii ''op(*('b',)) -> k2''], None))"
proof -
  have general: "replay E w fn =
            ((qualname fn @ ascii '' was called ''
                @ (case py_decode got of Inl e \<Rightarrow> ascii ''0'' | Inr s \<Rightarrow> s)
                @ ascii '' times:'')
             # map (\<lambda>(i, out). qualname fn @ ascii ''(*'' @ decode_or_empty i
                                  @ ascii '') -> '' @ decode_or_empty out) (zip ins outs),
             None)
          \<and> length (fst (replay E w fn)) = 1 + min (length ins) (length outs)"
    if "(r_get (redis w) (qualname fn) :: error + 'f pyval) = Inr got"
      and "r_lrange (redis w) (qualname fn @ ascii '':inputs'') 0 (- 1) = Inr ins"
      and "r_lrange (redis w) (qualname fn @ ascii '':outputs'') 0 (- 1) = Inr outs"
    using replay_reads [OF that, of E] by simp
  have example: "replay E
          (snd (call_seq (count_calls (call_history E m)) (Cache_init w0)
                  [([PStr (ascii ''a'')], []), ([PStr (ascii ''b'')], [])]))
          (count_calls (call_history E m))
        = ([ascii ''op was called 2 times:'', ascii ''op(*('a',)) -> k1'',
            ascii ''op(*('b',)) -> k2''], None)"
    if q: "qualname m = ascii ''op''"
      and a: "\<forall>s. body m s [PStr (ascii ''a'')] [] = (Inr (PStr (ascii ''k1'')), s)"
      and b: "\<forall>s. body m s [PStr (ascii ''b'')] [] = (Inr (PStr (ascii ''k2'')), s)"
  proof -
    let ?fn = "count_calls (call_history E m)"
    let ?w = "snd (call_seq ?fn (Cache_init w0)
                  [([PStr (ascii ''a'')], []), ([PStr (ascii ''b'')], [])])"
    have qn: "qualname ?fn = ascii ''op''"
      by (simp add: count_calls_def call_history_def q Let_def)
    have db: "redis ?w = [''op'' \<mapsto> RString ''2'',
            ''op:inputs'' \<mapsto> RList [''('a',)'', ''('b',)''],
            ''op:outputs'' \<mapsto> RList [''k1'', ''k2'']]"
      by (rule op_two_calls [OF q a b])
    have g: "(r_get (redis ?w) (qualname ?fn) :: error + 'f pyval) = Inr (PBytes ''2'')"
      unfolding db qn by (simp add: r_get_def db_get_def op_keys)
    have i: "r_lrange (redis ?w) (qualname ?fn @ ascii '':inputs'') 0 (- 1)
               = Inr [''('a',)'', ''('b',)'']"
      unfolding db qn by (simp add: r_lrange_def db_lrange_def op_keys slice_all)
    have o: "r_lrange (redis ?w) (qualname ?fn @ ascii '':outputs'') 0 (- 1)
               = Inr [''k1'', ''k2'']"
      unfolding db qn by (simp add: r_lrange_def db_lrange_def op_keys slice_all)
    show ?thesis
      unfolding replay_reads [OF g i o, of E] qn
      by (simp add: py_decode_def decode_or_empty_def emit_def ascii_def)
  qed
  show ?thesis using general example by blast
qed

theorem replay_report_witness:
  "replay plain_env
     (snd (call_seq
        (count_calls (call_history plain_env
           \<lparr>qualname = ascii ''op'',
            body = (\<lambda>s args kwargs.
              (if args = [PStr (ascii ''a'')] then Inr (PStr (ascii ''k1''))
               else Inr (PStr (ascii ''k2'')), s))\<rparr>))
        (Cache_init (sample_world Map.empty))
        [([PStr (ascii ''a'')], []), ([PStr (ascii ''b'')], [])]))
     (count_calls (call_history plain_env
           \<lparr>qualname = ascii ''op'',
            body = (\<lambda>s args kwargs.
              (if args = [PStr (ascii ''a'')] then Inr (PStr (ascii ''k1''))
               else Inr (PStr (ascii ''k2'')), s))\<rparr>))
   = ([ascii ''op was called 2 times:'', ascii ''op(*('a',)) -> k1'',
       ascii ''op(*('b',)) -> k2''], None)"
proof -
  let ?m = "\<lparr>qualname = ascii ''op'',
            body = (\<lambda>s (args :: unit pyval list) (kwargs :: unit kwargs).
              (if args = [PStr (ascii ''a'')] then Inr (PStr (ascii ''k1''))
               else Inr (PStr (ascii ''k2'') :: unit pyval) :: error + unit pyval, s :: world))\<rparr>"
  have q: "qualname ?m = ascii ''op''" by simp
  have a: "\<forall>s. body ?m s [PStr (ascii ''a'')] [] = (Inr (PStr (ascii ''k1'')), s)" by simp
  have b: "\<forall>s. body ?m s [PStr (ascii ''b'')] [] = (Inr (PStr (ascii ''k2'')), s)"
    by (simp add: ascii_def)
  show ?thesis
    using replay_report [where E = plain_env and m = ?m and ?w0.0 = "sample_world Map.empty"
        and w = "sample_world Map.empty" and fn = ?m and got = PNone and ins = "[]"
        and outs = "[]"] q a b
    by blast
qed

text \<open>
  C5, as the program has it. \<^verbatim>\<open>replay\<close> prints the count 0 when the counter is
  absent and when its bytes are not valid UTF-8; a counter that decodes is printed as
  its text, whether or not the text is a number. A history entry that is not valid
  UTF-8 is printed as the empty text. None of these raises: the report is printed to
  its end whenever the two lists can be read.
\<close>

theorem replay_counter_default:
  fixes E :: "'f pyenv"
  assumes "utf8_encode (qualname fn) = Inr k"
  shows "(redis w k = None \<or> (\<exists>b e. redis w k = Some (RString b) \<and> utf8_decode b = Inl e)
          \<longrightarrow> (\<exists>rest err. replay E w fn =
                 ((qualname fn @ ascii '' was called 0 times:'') # rest, err)))
    \<and> (redis w k = Some (RString b) \<and> utf8_decode b = Inr s
          \<longrightarrow> (\<exists>rest err. replay E w fn =
                 ((qualname fn @ ascii '' was called '' @ s @ ascii '' times:'') # rest, err)))
    \<and> ((redis w k = None \<or> (\<exists>b. redis w k = Some (RString b)))
        \<and> r_lrange (redis w) (qualname fn @ ascii '':inputs'') 0 (- 1) = Inr ins
        \<and> r_lrange (redis w) (qualname fn @ ascii '':outputs'') 0 (- 1) = Inr outs
          \<longrightarrow> snd (replay E w fn) = None
            \<and> tl (fst (replay E w fn)) =
                map (\<lambda>(i, out).
                       qualname fn @ ascii ''(*''
                       @ (case utf8_decode i of Inl e \<Rightarrow> [] | Inr t \<Rightarrow> t) @ ascii '') -> ''
                       @ (case utf8_decode out of Inl e \<Rightarrow> [] | Inr t \<Rightarrow> t))
                  (zip ins outs))"
proof -
  have zero: "ascii '' was called '' @ ascii ''0'' @ ascii '' times:'' = ascii '' was called 0 times:''"
    by (simp add: ascii_def)
  have absent: "\<exists>rest err. replay E w fn = ((qualname fn @ ascii '' was called 0 times:'') # rest, err)"
    if "redis w k = None"
  proof -
    have "(r_get (redis w) (qualname fn) :: error + 'f pyval) = Inr PNone"
      using that assms by (simp add: r_get_def db_get_def)
    from replay_header [OF this, of E] show ?thesis by (simp add: py_decode_def zero)
  qed
  have undecodable: "\<exists>rest err. replay E w fn = ((qualname fn @ ascii '' was called 0 times:'') # rest, err)"
    if "redis w k = Some (RString b')" "utf8_decode b' = Inl e" for b' e
  proof -
    have "(r_get (redis w) (qualname fn) :: error + 'f pyval) = Inr (PBytes b')"
      using that assms by (simp add: r_get_def db_get_def)
    from replay_header [OF this, of E] that(2) show ?thesis by (simp add: py_decode_def zero)
  qed
  have decodable: "\<exists>rest err. replay E w fn =
       ((qualname fn @ ascii '' was called '' @ s @ ascii '' times:'') # rest, err)"
    if "redis w k = Some (RString b)" "utf8_decode b = Inr s"
  proof -
    have "(r_get (redis w) (qualname fn) :: error + 'f pyval) = Inr (PBytes b)"
      using that assms by (simp add: r_get_def db_get_def)
    from replay_header [OF this, of E] that(2) show ?thesis by (simp add: py_decode_def)
  qed
  have lines: "snd (replay E w fn) = None
            \<and> tl (fst (replay E w fn)) =
                map (\<lambda>(i, out).
                       qualname fn @ ascii ''(*''
                       @ (case utf8_decode i of Inl e \<Rightarrow> [] | Inr t \<Rightarrow> t) @ ascii '') -> ''
                       @ (case utf8_decode out of Inl e \<Rightarrow> [] | Inr t \<Rightarrow> t))
                  (zip ins outs)"
    if c: "redis w k = None \<or> (\<exists>b. redis w k = Some (RString b))"
      and i: "r_lrange (redis w) (qualname fn @ ascii '':inputs'') 0 (- 1) = Inr ins"
      and o: "r_lrange (redis w) (qualname fn @ ascii '':outputs'') 0 (- 1) = Inr outs"
  proof -
    from c assms obtain got where "(r_get (redis w) (qualname fn) :: error + 'f pyval) = Inr got"
      by (auto simp: r_get_def db_get_def)
    from replay_reads [OF this i o, of E] show ?thesis
      by (simp add: decode_or_empty_def)
  qed
  show ?thesis using absent undecodable decodable lines by blast
qed

theorem replay_counter_default_witness:
  "(\<exists>rest err. replay plain_env (sample_world Map.empty) (Cache_store plain_env)
       = (ascii ''Cache.store was called 0 times:'' # rest, err))
   \<and> (\<exists>rest err. replay plain_env (sample_world [''Cache.store'' \<mapsto> RString [CHR 0xFF]])
         (Cache_store plain_env) = (ascii ''Cache.store was called 0 times:'' # rest, err))
   \<and> (\<exists>rest err. replay plain_env (sample_world [''Cache.store'' \<mapsto> RString ''7''])
         (Cache_store plain_env) = (ascii ''Cache.store was called 7 times:'' # rest, err))
   \<and> replay plain_env
        (sample_world [''Cache.store:inputs'' \<mapsto> RList [[CHR 0xFF], ''()''],
                       ''Cache.store:outputs'' \<mapsto> RList [''k'']]) (Cache_store plain_env)
      = ([ascii ''Cache.store was called 0 times:'', ascii ''Cache.store(*) -> k''], None)"
proof -
  let ?fn = "Cache_store plain_env"
  have q: "qualname ?fn = ascii ''Cache.store''"
    by (simp add: Cache_store_def count_calls_def Let_def)
  have k: "utf8_encode (qualname ?fn) = Inr ''Cache.store''" by (simp add: q enc_ckey)
  have bad: "utf8_decode [CHR 0xFF] = Inl UnicodeDecodeError" by simp
  have seven: "utf8_decode ''7'' = Inr (ascii ''7'')" by (simp add: emit_def ascii_def)
  have dk: "utf8_decode ''k'' = Inr (ascii ''k'')" by (simp add: emit_def ascii_def)
  have h0: "qualname ?fn @ ascii '' was called 0 times:'' = ascii ''Cache.store was called 0 times:''"
    by (simp add: q ascii_def)
  have h7: "qualname ?fn @ ascii '' was called '' @ ascii ''7'' @ ascii '' times:''
      = ascii ''Cache.store was called 7 times:''"
    by (simp add: q ascii_def)
  have 1: "\<exists>rest err. replay plain_env (sample_world Map.empty) ?fn
       = (ascii ''Cache.store was called 0 times:'' # rest, err)"
    using replay_counter_default [OF k, where E = plain_env and w = "sample_world Map.empty"]
    by (simp add: redis_sample_world h0)
  have 2: "\<exists>rest err. replay plain_env (sample_world [''Cache.store'' \<mapsto> RString [CHR 0xFF]]) ?fn
       = (ascii ''Cache.store was called 0 times:'' # rest, err)"
    using replay_counter_default [OF k, where E = plain_env
        and w = "sample_world [''Cache.store'' \<mapsto> RString [CHR 0xFF]]"] bad
    by (simp add: redis_sample_world h0)
  have 3: "\<exists>rest err. replay plain_env (sample_world [''Cache.store'' \<mapsto> RString ''7'']) ?fn
       = (ascii ''Cache.store was called 7 times:'' # rest, err)"
    using replay_counter_default [OF k, where E = plain_env
        and w = "sample_world [''Cache.store'' \<mapsto> RString ''7'']" and b = "''7''"
        and s = "ascii ''7''"] seven
    by (simp add: redis_sample_world h7)
  let ?w = "sample_world [''Cache.store:inputs'' \<mapsto> RList [[CHR 0xFF], ''()''],
                       ''Cache.store:outputs'' \<mapsto> RList [''k'']]"
  have i: "r_lrange (redis ?w) (qualname ?fn @ ascii '':inputs'') 0 (- 1) = Inr [[CHR 0xFF], ''()'']"
    by (simp add: q r_lrange_def enc_ikey db_lrange_def slice_all redis_sample_world)
  have o: "r_lrange (redis ?w) (qualname ?fn @ ascii '':outputs'') 0 (- 1) = Inr [''k'']"
    by (simp add: q r_lrange_def enc_okey db_lrange_def slice_all redis_sample_world)
  from replay_counter_default [OF k, where E = plain_env and w = ?w
      and ins = "[[CHR 0xFF], ''()'']" and outs = "[''k'']"] i o
  obtain rest err where
    a: "replay plain_env ?w ?fn = (ascii ''Cache.store was called 0 times:'' # rest, err)"
    and b: "snd (replay plain_env ?w ?fn) = None"
    and c: "tl (fst (replay plain_env ?w ?fn)) = [ascii ''Cache.store(*) -> k'']"
    by (auto simp: redis_sample_world h0 emit_def q ascii_def)
  have 4: "replay plain_env ?w ?fn
      = ([ascii ''Cache.store was called 0 times:'', ascii ''Cache.store(*) -> k''], None)"
    using a b c by simp
  show ?thesis using 1 2 3 4 by blast
qed

text \<open>
  C5 as it was stated fails: a counter whose text is not a number is not replaced
  by 0. With the counter \<^verbatim>\<open>abc\<close>, which neither \<^verbatim>\<open>int\<close> nor the store reads as
  a number, the header says \<^verbatim>\<open>called abc times\<close>.
\<close>

theorem replay_counter_not_a_count:
  "replay plain_env (sample_world [''Cache.store'' \<mapsto> RString ''abc'']) (Cache_store plain_env)
     = ([ascii ''Cache.store was called abc times:''], None)
   \<and> py_int plain_env (ascii ''abc'') = Inl ValueError
   \<and> redis_int ''abc'' = None
   \<and> ascii ''Cache.store was called abc times:'' \<noteq> ascii ''Cache.store was called 0 times:''"
proof -
  have q: "qualname (Cache_store plain_env) = ascii ''Cache.store''"
    by (simp add: Cache_store_def count_calls_def Let_def)
  have r: "replay plain_env (sample_world [''Cache.store'' \<mapsto> RString ''abc''])
      (Cache_store plain_env) = ([ascii ''Cache.store was called abc times:''], None)"
    by (simp add: replay_def q Let_def r_get_def enc_ckey enc_ikey enc_okey db_get_def
          redis_sample_world py_decode_def emit_def r_lrange_def db_lrange_def)
      (simp add: ascii_def)
  have p: "py_int plain_env (ascii ''abc'') = Inl ValueError" by code_simp
  have i: "redis_int ''abc'' = None" by code_simp
  show ?thesis using r p i by (simp add: ascii_def)
qed

text \<open>
  C6. \<^verbatim>\<open>get_int\<close> returns the integer that \<^verbatim>\<open>int\<close> reads from the UTF-8
  decoding of the payload, and 0 when the key is absent, when the payload is not UTF-8
  and when its text is not an integer: 42 for the payload \<^verbatim>\<open>42\<close>, 0 for a missing
  key, 0 for the payload \<^verbatim>\<open>abc\<close>.
\<close>

theorem get_int_lenient:
  assumes "utf8_encode key = Inr k"
  shows "(redis self k = None \<longrightarrow> get_int E self key = Inr 0)
    \<and> (redis self k = Some (RString b) \<longrightarrow>
         get_int E self key =
           Inr (case utf8_decode b of
                  Inl e \<Rightarrow> 0
                | Inr s \<Rightarrow> (case py_int E s of Inl e \<Rightarrow> 0 | Inr n \<Rightarrow> n)))
    \<and> (redis self k = Some (RString ''42'') \<longrightarrow> get_int E self key = Inr 42)
    \<and> (redis self k = Some (RString ''abc'') \<longrightarrow> get_int E self key = Inr 0)"
proof -
  have "show_int 42 = ''42''" by code_simp
  then have i42: "py_int E (ascii ''42'') = Inr 42"
    using py_int_show_int [of E 42] by simp
  have abc: "py_int E (ascii ''abc'') = Inl ValueError"
    by (simp add: py_int_def ascii_def int_space_def int_digit_def)
  have d42: "utf8_decode ''42'' = Inr (ascii ''42'')"
    by (simp add: emit_def ascii_def)
  have dabc: "utf8_decode ''abc'' = Inr (ascii ''abc'')"
    by (simp add: emit_def ascii_def)
  show ?thesis
    using assms i42 abc d42 dabc
    by (auto simp: get_int_def r_get_def db_get_def py_decode_def split: sum.splits)
qed

theorem get_int_lenient_witness:
  "get_int plain_env (sample_world [''n'' \<mapsto> RString ''42'', ''t'' \<mapsto> RString ''abc''])
       (ascii ''n'') = Inr 42
   \<and> get_int plain_env (sample_world [''n'' \<mapsto> RString ''42'', ''t'' \<mapsto> RString ''abc''])
       (ascii ''t'') = Inr 0
   \<and> get_int plain_env (sample_world [''n'' \<mapsto> RString ''42'', ''t'' \<mapsto> RString ''abc''])
       (ascii ''missing'') = Inr 0"
proof -
  let ?w = "sample_world [''n'' \<mapsto> RString ''42'', ''t'' \<mapsto> RString ''abc'']"
  have n: "utf8_encode (ascii ''n'') = Inr ''n''" by (simp add: utf8_encode_ascii)
  have t: "utf8_encode (ascii ''t'') = Inr ''t''" by (simp add: utf8_encode_ascii)
  have m: "utf8_encode (ascii ''missing'') = Inr ''missing''" by (simp add: utf8_encode_ascii)
  show ?thesis
    using get_int_lenient [OF n, where self = ?w and E = plain_env and b = "''''"]
      get_int_lenient [OF t, where self = ?w and E = plain_env and b = "''''"]
      get_int_lenient [OF m, where self = ?w and E = plain_env and b = "''''"]
    by (simp add: redis_sample_world)
qed

text \<open>
  C7. \<^verbatim>\<open>get_str\<close> returns the UTF-8 decoding of the payload when the payload is
  valid UTF-8, and raises otherwise, with no default: \<^verbatim>\<open>UnicodeDecodeError\<close> for
  a payload that is not UTF-8, \<^verbatim>\<open>AttributeError\<close> for a missing key; the payload
  \<^verbatim>\<open>hello\<close> reads as the text \<^verbatim>\<open>hello\<close>.
\<close>

theorem get_str_strict:
  assumes "utf8_encode key = Inr k"
  shows "(redis self k = Some (RString b) \<and> utf8_decode b = Inr s \<longrightarrow> get_str self key = Inr s)
    \<and> (redis self k = Some (RString b) \<and> utf8_decode b = Inl e \<longrightarrow>
         get_str self key = Inl UnicodeDecodeError)
    \<and> (redis self k = None \<longrightarrow> get_str self key = Inl AttributeError)
    \<and> (redis self k = Some (RString ''hello'') \<longrightarrow> get_str self key = Inr (ascii ''hello''))"
proof -
  have h: "utf8_decode ''hello'' = Inr (ascii ''hello'')"
    by (simp add: emit_def ascii_def)
  show ?thesis
    using assms h
    by (auto simp: get_str_def r_get_def db_get_def py_decode_def dest: utf8_decode_error)
qed

theorem get_str_strict_witness:
  "get_str (sample_world [''h'' \<mapsto> RString ''hello'', ''x'' \<mapsto> RString [CHR 0xFF]])
       (ascii ''h'') = Inr (ascii ''hello'')
   \<and> get_str (sample_world [''h'' \<mapsto> RString ''hello'', ''x'' \<mapsto> RString [CHR 0xFF]])
       (ascii ''x'') = Inl UnicodeDecodeError
   \<and> get_str (sample_world [''h'' \<mapsto> RString ''hello'', ''x'' \<mapsto> RString [CHR 0xFF]])
       (ascii ''missing'') = Inl AttributeError"
proof -
  let ?w = "sample_world [''h'' \<mapsto> RString ''hello'', ''x'' \<mapsto> RString [CHR 0xFF]]"
  have h: "utf8_encode (ascii ''h'') = Inr ''h''" by (simp add: utf8_encode_ascii)
  have x: "utf8_encode (ascii ''x'') = Inr ''x''" by (simp add: utf8_encode_ascii)
  have m: "utf8_encode (ascii ''missing'') = Inr ''missing''" by (simp add: utf8_encode_ascii)
  have bad: "utf8_decode [CHR 0xFF] = Inl UnicodeDecodeError" by simp
  show ?thesis
    using get_str_strict [OF h, where self = ?w]
      get_str_strict [OF x, where self = ?w and b = "[CHR 0xFF]" and e = UnicodeDecodeError]
      get_str_strict [OF m, where self = ?w]
    by (simp add: redis_sample_world bad)
qed

text \<open>
  C8. \<^verbatim>\<open>get\<close> without a function returns what the store returned for the key,
  unchanged: the bytes, or \<^verbatim>\<open>None\<close> for an absent key. With a function \<open>fn\<close> it
  returns \<open>fn\<close> of that value, also when the value is \<^verbatim>\<open>None\<close>.
\<close>

theorem get_raw_or_decoded:
  "(r_get (redis self) key = Inr data \<longrightarrow>
      get self key None = Inr data \<and> get self key (Some fn) = fn data)
   \<and> (utf8_encode key = Inr k \<and> redis self k = None \<longrightarrow>
      get self key None = Inr PNone \<and> get self key (Some fn) = fn PNone)
   \<and> (utf8_encode key = Inr k \<and> redis self k = Some (RString b) \<longrightarrow>
      get self key None = Inr (PBytes b) \<and> get self key (Some fn) = fn (PBytes b))"
  by (auto simp: get_def r_get_def db_get_def)

theorem get_raw_or_decoded_witness:
  "get (sample_world [''h'' \<mapsto> RString ''hello'']) (ascii ''h'') None
      = Inr (PBytes ''hello'' :: unit pyval)
   \<and> get (sample_world [''h'' \<mapsto> RString ''hello'']) (ascii ''missing'') None
      = Inr (PNone :: unit pyval)
   \<and> get (sample_world [''h'' \<mapsto> RString ''hello'']) (ascii ''missing'')
        (Some (\<lambda>d. Inr (PBool (d = PNone)))) = Inr (PBool True :: unit pyval)
   \<and> get (sample_world [''h'' \<mapsto> RString ''hello'']) (ascii ''h'')
        (Some (\<lambda>d. case py_decode d of Inl e \<Rightarrow> Inl e | Inr s \<Rightarrow> Inr (PStr s)))
      = Inr (PStr (ascii ''hello'') :: unit pyval)"
proof -
  let ?w = "sample_world [''h'' \<mapsto> RString ''hello'']"
  let ?f = "\<lambda>d :: unit pyval. case py_decode d of Inl e \<Rightarrow> Inl e | Inr s \<Rightarrow> Inr (PStr s :: unit pyval)"
  let ?g = "\<lambda>d :: unit pyval. Inr (PBool (d = PNone)) :: error + unit pyval"
  have h: "utf8_encode (ascii ''h'') = Inr ''h''" by (simp add: utf8_encode_ascii)
  have m: "utf8_encode (ascii ''missing'') = Inr ''missing''" by (simp add: utf8_encode_ascii)
  have d: "?f (PBytes ''hello'') = Inr (PStr (ascii ''hello''))"
    by (simp add: py_decode_def emit_def ascii_def)
  have hw: "redis ?w ''h'' = Some (RString ''hello'')" by (simp add: redis_sample_world)
  have mw: "redis ?w ''missing'' = None" by (simp add: redis_sample_world)
  have 1: "get ?w (ascii ''h'') None = Inr (PBytes ''hello'' :: unit pyval)
      \<and> get ?w (ascii ''h'') (Some ?f) = ?f (PBytes ''hello'')"
    using get_raw_or_decoded [where self = ?w and key = "ascii ''h''" and k = "''h''"
        and b = "''hello''" and fn = ?f] h hw
    by blast
  have 2: "get ?w (ascii ''missing'') None = Inr (PNone :: unit pyval)
      \<and> get ?w (ascii ''missing'') (Some ?g) = ?g PNone"
    using get_raw_or_decoded [where self = ?w and key = "ascii ''missing''"
        and k = "''missing''" and fn = ?g] m mw
    by blast
  show ?thesis
    using 1 2 d by simp
qed

text \<open>
  C9. Constructing a \<^verbatim>\<open>Cache\<close> empties the database: afterwards no key holds a
  value, and \<^verbatim>\<open>get\<close> returns \<^verbatim>\<open>None\<close> for every key, whatever was written
  before.
\<close>

theorem Cache_init_clears:
  "redis (Cache_init w) k = None
   \<and> (utf8_encode key = Inr k \<longrightarrow>
        get (Cache_init w) key None = Inr PNone \<and> get (Cache_init w) key (Some fn) = fn PNone)"
  by (simp add: Cache_init_def r_flushdb_def db_flush_def get_def r_get_def db_get_def)

theorem Cache_init_clears_witness:
  "get (sample_world [''h'' \<mapsto> RString ''hello'']) (ascii ''h'') None
      = Inr (PBytes ''hello'' :: unit pyval)
   \<and> get (Cache_init (sample_world [''h'' \<mapsto> RString ''hello''])) (ascii ''h'') None
      = Inr (PNone :: unit pyval)"
proof -
  let ?w = "sample_world [''h'' \<mapsto> RString ''hello'']"
  have h: "utf8_encode (ascii ''h'') = Inr ''h''" by (simp add: utf8_encode_ascii)
  have before: "get ?w (ascii ''h'') None = Inr (PBytes ''hello'' :: unit pyval)"
    by (simp add: get_def r_get_def db_get_def h redis_sample_world)
  have after: "get (Cache_init ?w) (ascii ''h'') None = Inr (PNone :: unit pyval)"
    using Cache_init_clears [where w = ?w and key = "ascii ''h''" and k = "''h''"
        and fn = "\<lambda>d. Inr (d :: unit pyval)"] h
    by blast
  show ?thesis using before after by simp
qed

text \<open>
  C10. The history wrapper hands the keyword arguments to the wrapped method and
  records none of them: when a call returns, the entry it appended to the inputs list
  is the text of the tuple of positional arguments, and a call with the same
  positional arguments and other keyword arguments appends the same entry.
\<close>

theorem call_history_ignores_kwargs:
  fixes E :: "'f pyenv"
  assumes "body (call_history E m) self args kwargs = (Inr out, self')"
  shows "\<exists>self1 entry ins.
           body m self args kwargs = (Inr out, self1)
         \<and> utf8_encode (str_tuple E args) = Inr entry
         \<and> r_lrange (redis self1) (qualname m @ ascii '':inputs'') 0 (- 1) = Inr ins
         \<and> r_lrange (redis self') (qualname m @ ascii '':inputs'') 0 (- 1) = Inr (ins @ [entry])
         \<and> (body (call_history E m) self2 args kwargs2 = (Inr out2, self2') \<longrightarrow>
              (\<exists>ins2. r_lrange (redis self2') (qualname m @ ascii '':inputs'') 0 (- 1)
                        = Inr (ins2 @ [entry])))"
proof -
  have step: "\<exists>self1 entry ins.
           body m s a k = (Inr r, self1)
         \<and> utf8_encode (str_tuple E a) = Inr entry
         \<and> r_lrange (redis self1) (qualname m @ ascii '':inputs'') 0 (- 1) = Inr ins
         \<and> r_lrange (redis s') (qualname m @ ascii '':inputs'') 0 (- 1) = Inr (ins @ [entry])"
    if call: "body (call_history E m) s a k = (Inr r, s')" for s a k r s'
  proof -
    obtain r1 s1 where b: "body m s a k = (r1, s1)" by (cases "body m s a k")
    from call b obtain n db1 n2 db2 where
      r1: "r1 = Inr r"
      and p1: "r_rpush E (redis s1) (qualname m @ ascii '':inputs'') (PStr (str_tuple E a)) = Inr (n, db1)"
      and p2: "r_rpush E db1 (qualname m @ ascii '':outputs'') (PStr (py_str E r)) = Inr (n2, db2)"
      and s': "s' = s1\<lparr>redis := db2\<rparr>"
      by (auto simp: call_history_def Let_def split: sum.splits prod.splits)
    from p1 obtain ik entry where ik: "utf8_encode (qualname m @ ascii '':inputs'') = Inr ik"
      and entry: "utf8_encode (str_tuple E a) = Inr entry"
      and q1: "db_rpush (redis s1) ik entry = Inr (n, db1)"
      by (auto simp: r_rpush_def encode_def split: sum.splits)
    from p2 obtain ok bo where ok: "utf8_encode (qualname m @ ascii '':outputs'') = Inr ok"
      and q2: "db_rpush db1 ok bo = Inr (n2, db2)"
      by (auto simp: r_rpush_def split: sum.splits)
    from db_rpush_Inr [OF q1] obtain ins where
      ins: "db_lrange (redis s1) ik 0 (- 1) = Inr ins"
      and db1: "db1 = (redis s1)(ik \<mapsto> RList (ins @ [entry]))" by blast
    from db_rpush_Inr [OF q2] obtain outs where
      db2: "db2 = db1(ok \<mapsto> RList (outs @ [bo]))" by blast
    have ne: "ik \<noteq> ok" using history_keys_differ [OF ik ok] .
    have "db_lrange db2 ik 0 (- 1) = Inr (ins @ [entry])"
      using ne by (simp add: db2 db1 db_lrange_def slice_all)
    then show ?thesis
      using b r1 entry ins by (simp add: r_lrange_def ik s')
  qed
  from step [OF assms] obtain self1 entry ins where
    1: "body m self args kwargs = (Inr out, self1)"
    and 2: "utf8_encode (str_tuple E args) = Inr entry"
    and 3: "r_lrange (redis self1) (qualname m @ ascii '':inputs'') 0 (- 1) = Inr ins"
    and 4: "r_lrange (redis self') (qualname m @ ascii '':inputs'') 0 (- 1) = Inr (ins @ [entry])"
    by blast
  have "\<exists>ins2. r_lrange (redis self2') (qualname m @ ascii '':inputs'') 0 (- 1) = Inr (ins2 @ [entry])"
    if "body (call_history E m) self2 args kwargs2 = (Inr out2, self2')"
    using step [OF that] 2 by auto
  with 1 2 3 4 show ?thesis by blast
qed

theorem call_history_ignores_kwargs_witness:
  "r_lrange (redis (snd (body (call_history plain_env (store plain_env)) (sample_world Map.empty) []
       [(ascii ''data'', PInt 5)]))) (ascii ''Cache.store:inputs'') 0 (- 1) = Inr [''()'']
   \<and> r_lrange (redis (snd (body (call_history plain_env (store plain_env)) (sample_world Map.empty) []
       [(ascii ''data'', PInt 6)]))) (ascii ''Cache.store:inputs'') 0 (- 1) = Inr [''()'']"
proof -
  let ?h = "call_history plain_env (store plain_env)"
  let ?w = "sample_world Map.empty"
  let ?after = "\<lambda>i. sample_world
        [''123e4567-e89b-42d3-a456-426614174000'' \<mapsto> RString (show_int i),
         ''Cache.store:inputs'' \<mapsto> RList [''()''],
         ''Cache.store:outputs'' \<mapsto> RList [''123e4567-e89b-42d3-a456-426614174000'']]"
  have t: "utf8_encode (str_tuple plain_env ([] :: unit pyval list)) = Inr ''()''"
    by (simp add: str_tuple_def utf8_encode_append utf8_encode_ascii)
  have q: "qualname (store plain_env) @ ascii '':inputs'' = ascii ''Cache.store:inputs''"
    by (simp add: qualname_store ikey_text)
  from call_history_ignores_kwargs [OF sample_history_call [of 5],
      where ?self2.0 = ?w and ?kwargs2.0 = "[(ascii ''data'', PInt 6)]"
        and ?out2.0 = "PStr sample_uuid" and self2' = "?after 6"]
  obtain entry ins ins2 where
    e: "utf8_encode (str_tuple plain_env ([] :: unit pyval list)) = Inr entry"
    and a: "r_lrange (redis (?after 5)) (ascii ''Cache.store:inputs'') 0 (- 1) = Inr (ins @ [entry])"
    and b: "r_lrange (redis (?after 6)) (ascii ''Cache.store:inputs'') 0 (- 1) = Inr (ins2 @ [entry])"
    unfolding q using sample_history_call [of 6] by auto
  have l: "r_lrange (redis (?after i)) (ascii ''Cache.store:inputs'') 0 (- 1) = Inr [''()'']" for i
    by (simp add: r_lrange_def ikey_text enc_ikey db_lrange_def slice_all redis_sample_world)
  from a l [of 5] have "ins = [] \<and> entry = ''()''" by simp
  with a b show ?thesis
    unfolding sample_history_call snd_conv by (simp add: l)
qed

end
